theory Spec2Isabelle
  imports Main "HOL-Library.Sublist" "HOL-Library.List_Lexorder" "HOL-Library.Char_ord"
begin

section \<open>Python values and strings\<close>

text \<open>
  Exceptions of the Python program are values. A function that can raise returns
  \<open>error + 'a\<close>; a function that also mutates state returns the state reached together
  with the outcome, so that the state left behind by an exception is visible.
\<close>

datatype error =
    NameError string
  | UnboundLocalError string
  | AssertionError
  | FileNotFoundError
  | NotADirectoryError
  | IsADirectoryError
  | FileExistsError
  | SameFileError
  | ClientError
  | CollaboratorError

text \<open>The characters the program tests for, by code point.\<close>

definition newline :: char where "newline = CHR 0x0A"
definition slash :: char where "slash = CHR 0x2F"
definition squote :: char where "squote = CHR 0x27"
definition dquote :: char where "dquote = CHR 0x22"
definition backslash :: char where "backslash = CHR 0x5C"

text \<open>\<open>sep.join(xs)\<close>.\<close>

fun join :: "string \<Rightarrow> string list \<Rightarrow> string" where
  "join sep [] = []"
| "join sep [x] = x"
| "join sep (x # y # ys) = x @ sep @ join sep (y # ys)"

text \<open>\<open>s.split(c)\<close> for a one-character separator: never the empty list.\<close>

fun split_on :: "char \<Rightarrow> string \<Rightarrow> string list" where
  "split_on c [] = [[]]"
| "split_on c (x # xs) =
     (if x = c then [] # split_on c xs
      else (case split_on c xs of [] \<Rightarrow> [[x]] | w # ws \<Rightarrow> (x # w) # ws))"

text \<open>\<open>s.startswith(p)\<close> and \<open>s.endswith(p)\<close>.\<close>

definition startswith :: "string \<Rightarrow> string \<Rightarrow> bool" where
  "startswith s p = (take (length p) s = p)"

definition endswith :: "string \<Rightarrow> string \<Rightarrow> bool" where
  "endswith s p = (drop (length s - length p) s = p \<and> length p \<le> length s)"

text \<open>\<open>str(n)\<close> for an integer.\<close>

fun nat_digits :: "nat \<Rightarrow> string" where
  "nat_digits n =
     (if n < 10 then [''0123456789'' ! n]
      else nat_digits (n div 10) @ [''0123456789'' ! (n mod 10)])"

declare nat_digits.simps [simp del]

definition int_str :: "int \<Rightarrow> string" where
  "int_str i = (if i < 0 then CHR ''-'' # nat_digits (nat (- i)) else nat_digits (nat i))"

text \<open>
  The positional arguments of the logging calls are arbitrary Python objects of which
  only \<open>str(arg)\<close> is used. The model has the kinds of argument the program itself
  passes: strings, integers (the counters, in \<open>standard_status\<close>), booleans and None.
\<close>

datatype pyval = PStr string | PInt int | PBool bool | PNone

fun py_str :: "pyval \<Rightarrow> string" where
  "py_str (PStr s) = s"
| "py_str (PInt i) = int_str i"
| "py_str (PBool b) = (if b then ''True'' else ''False'')"
| "py_str PNone = ''None''"

text \<open>
  \<open>repr(s)\<close> of a string, for characters below 128: single quotes unless the string has
  a single quote and no double quote; backslash, the quote, newline, carriage return and
  tab are escaped, other control characters are written \<open>\xhh\<close>.
\<close>

definition hex2 :: "nat \<Rightarrow> string" where
  "hex2 n = [''0123456789abcdef'' ! (n div 16 mod 16), ''0123456789abcdef'' ! (n mod 16)]"

definition repr_char :: "char \<Rightarrow> char \<Rightarrow> string" where
  "repr_char q c =
     (if c = backslash then [backslash, backslash]
      else if c = q then [backslash, q]
      else if c = newline then [backslash, CHR ''n'']
      else if c = CHR 0x0D then [backslash, CHR ''r'']
      else if c = CHR 0x09 then [backslash, CHR ''t'']
      else if (of_char c :: nat) < 32 \<or> (of_char c :: nat) = 127
        then [backslash, CHR ''x''] @ hex2 (of_char c)
      else [c])"

definition py_repr :: "string \<Rightarrow> string" where
  "py_repr s =
     (let q = (if squote \<in> set s \<and> dquote \<notin> set s then dquote else squote)
      in q # concat (map (repr_char q) s) @ [q])"

text \<open>
  \<open>int(s)\<close> of a string, base 10, for characters below 128: surrounding whitespace
  (tab, line feed, vertical tab, form feed, carriage return, space) is stripped, one sign
  is allowed, and the digits may be grouped by single underscores. A string of more than
  4300 digits is refused, which is the default limit of the interpreter
  (\<open>sys.int_info.default_max_str_digits\<close>). \<open>None\<close> is ValueError.
\<close>

definition is_space :: "char \<Rightarrow> bool" where
  "is_space c = ((of_char c :: nat) \<in> {9, 10, 11, 12, 13, 32})"

definition is_digit :: "char \<Rightarrow> bool" where
  "is_digit c = (48 \<le> (of_char c :: nat) \<and> (of_char c :: nat) \<le> 57)"

definition strip :: "string \<Rightarrow> string" where
  "strip s = rev (dropWhile is_space (rev (dropWhile is_space s)))"

fun digits_ok :: "string \<Rightarrow> bool" where
  "digits_ok [] = False"
| "digits_ok [c] = is_digit c"
| "digits_ok (c # d # ds) =
     (if is_digit c then (if d = CHR ''_'' then digits_ok ds else digits_ok (d # ds))
      else False)"

definition digits_value :: "string \<Rightarrow> nat" where
  "digits_value ds =
     foldl (\<lambda>acc c. 10 * acc + ((of_char c :: nat) - 48)) 0 (filter is_digit ds)"

definition max_str_digits :: nat where
  "max_str_digits = 4300"

definition parse_digits :: "string \<Rightarrow> nat option" where
  "parse_digits ds =
     (if digits_ok ds \<and> length (filter is_digit ds) \<le> max_str_digits
      then Some (digits_value ds) else None)"

definition py_int :: "string \<Rightarrow> int option" where
  "py_int s =
     (case strip s of
        [] \<Rightarrow> None
      | c # cs \<Rightarrow>
          if c = CHR ''-'' then map_option (\<lambda>n. - int n) (parse_digits cs)
          else if c = CHR ''+'' then map_option int (parse_digits cs)
          else map_option int (parse_digits (c # cs)))"

section \<open>log.py: the counting logger\<close>

definition DEFAULT_VERBOSITY_LEVEL :: int where
  "DEFAULT_VERBOSITY_LEVEL = 50"

text \<open>
  The keyword arguments the logger reads: \<open>end\<close>, \<open>sep\<close> and \<open>verbosity\<close>; \<open>None\<close> is
  an absent key.
\<close>

record keys =
  k_end :: "string option"
  k_sep :: "string option"
  k_verbosity :: "int option"

definition no_keys :: keys where
  "no_keys = \<lparr>k_end = None, k_sep = None, k_verbosity = None\<rparr>"

datatype severity = DEBUG | INFO | WARNING | ERROR

datatype stream = Stderr | Stdout

datatype handler = StreamHandler stream | FileHandler string

text \<open>
  The fields of \<open>CaldpLogger\<close>. \<open>emitted\<close> is the underlying \<open>logging.Logger\<close>
  (\<open>self.logger\<close>), as the list of the calls made on it: the severity and the message
  text handed over. \<open>written\<close> is what \<open>write\<close> (here \<open>write_out\<close>) has sent to \<open>sys.stdout\<close>.
  \<open>level\<close> is the numeric logging level (\<open>logging.DEBUG\<close> is 10).
\<close>

record caldp_logger =
  name :: string
  handlers :: "handler list"
  filters :: "(string \<Rightarrow> string) list"
  enable_time :: bool
  console :: "handler option"
  log_file :: "string option"
  level :: nat
  errors :: int
  warnings :: int
  infos :: int
  debugs :: int
  eol_pending :: bool
  verbose_level :: int
  emitted :: "(severity \<times> string) list"
  written :: "string list"

definition format :: "caldp_logger \<Rightarrow> pyval list \<Rightarrow> keys \<Rightarrow> string" where
  "format self args ks =
     (let end = (case k_end ks of None \<Rightarrow> [newline] | Some e \<Rightarrow> e);
          sep = (case k_sep ks of None \<Rightarrow> '' '' | Some s \<Rightarrow> s);
          output = join sep (map py_str args) @ end
      in fold (\<lambda>filt out. filt out) (filters self) output)"

definition write_out :: "caldp_logger \<Rightarrow> pyval list \<Rightarrow> keys \<Rightarrow> caldp_logger" where
  "write_out self args ks =
     (let output = format self args ks
      in self\<lparr>eol_pending := \<not> endswith output [newline],
              written := written self @ [output]\<rparr>)"

text \<open>\<open>eformat\<close> forces \<open>end\<close> to the empty string; it returns the logger too, since
  a pending end of line is written first.\<close>

definition eformat :: "caldp_logger \<Rightarrow> pyval list \<Rightarrow> keys \<Rightarrow> caldp_logger \<times> string" where
  "eformat self args ks =
     (let ks' = ks\<lparr>k_end := Some []\<rparr>;
          self' = (if eol_pending self then write_out self [] no_keys else self)
      in (self', format self' args ks'))"

definition logger_call :: "severity \<Rightarrow> caldp_logger \<Rightarrow> pyval list \<Rightarrow> keys \<Rightarrow> caldp_logger" where
  "logger_call sev self args ks =
     (let (self', msg) = eformat self args ks
      in self'\<lparr>emitted := emitted self' @ [(sev, msg)]\<rparr>)"

definition info :: "caldp_logger \<Rightarrow> pyval list \<Rightarrow> keys \<Rightarrow> caldp_logger" where
  "info self args ks =
     (let self1 = self\<lparr>infos := infos self + 1\<rparr>
      in if verbose_level self1 > - 1 then logger_call INFO self1 args ks else self1)"

definition warn :: "caldp_logger \<Rightarrow> pyval list \<Rightarrow> keys \<Rightarrow> caldp_logger" where
  "warn self args ks =
     (let self1 = self\<lparr>warnings := warnings self + 1\<rparr>
      in if verbose_level self1 > - 2 then logger_call WARNING self1 args ks else self1)"

definition error :: "caldp_logger \<Rightarrow> pyval list \<Rightarrow> keys \<Rightarrow> caldp_logger" where
  "error self args ks =
     (let self1 = self\<lparr>errors := errors self + 1\<rparr>
      in if verbose_level self1 > - 3 then logger_call ERROR self1 args ks else self1)"

definition debug :: "caldp_logger \<Rightarrow> pyval list \<Rightarrow> keys \<Rightarrow> caldp_logger" where
  "debug self args ks = logger_call DEBUG (self\<lparr>debugs := debugs self + 1\<rparr>) args ks"

definition should_output :: "caldp_logger \<Rightarrow> keys \<Rightarrow> bool" where
  "should_output self ks =
     (let verbosity = (case k_verbosity ks of None \<Rightarrow> DEFAULT_VERBOSITY_LEVEL | Some v \<Rightarrow> v)
      in \<not> verbose_level self < verbosity)"

definition verbose :: "caldp_logger \<Rightarrow> pyval list \<Rightarrow> keys \<Rightarrow> caldp_logger" where
  "verbose self args ks = (if should_output self ks then debug self args ks else self)"

definition verbose_warning :: "caldp_logger \<Rightarrow> pyval list \<Rightarrow> keys \<Rightarrow> caldp_logger" where
  "verbose_warning self args ks = (if should_output self ks then warn self args ks else self)"

definition status :: "caldp_logger \<Rightarrow> int \<times> int \<times> int" where
  "status self = (errors self, warnings self, infos self)"

definition reset :: "caldp_logger \<Rightarrow> caldp_logger" where
  "reset self = self\<lparr>errors := 0, warnings := 0, infos := 0, debugs := 0\<rparr>"

text \<open>
  The argument of \<open>set_verbose\<close> is an integer or a boolean; \<open>level is True\<close> holds of
  the boolean only, and in the assertion \<open>True\<close> counts as 1 and \<open>False\<close> as 0.
\<close>

datatype level_arg = LInt int | LBool bool

definition level_num :: "level_arg \<Rightarrow> int" where
  "level_num l = (case l of LInt i \<Rightarrow> i | LBool b \<Rightarrow> (if b then 1 else 0))"

definition set_verbose :: "caldp_logger \<Rightarrow> level_arg \<Rightarrow> error + (int \<times> caldp_logger)" where
  "set_verbose self lvl =
     (if \<not> (- 3 \<le> level_num lvl \<and> level_num lvl \<le> 100) then Inl AssertionError
      else
        let old_verbose = verbose_level self;
            lvl' = (if lvl = LBool True then DEFAULT_VERBOSITY_LEVEL
                    else if lvl = LBool False then 0
                    else level_num lvl)
        in Inr (old_verbose, self\<lparr>verbose_level := lvl'\<rparr>))"

definition get_verbose :: "caldp_logger \<Rightarrow> int" where
  "get_verbose self = verbose_level self"

definition increment_errors :: "caldp_logger \<Rightarrow> int \<Rightarrow> caldp_logger" where
  "increment_errors self n = self\<lparr>errors := errors self + n\<rparr>"

definition standard_status :: "caldp_logger \<Rightarrow> caldp_logger" where
  "standard_status self =
     (let (e, w, i) = status self;
          s1 = info self [PInt e, PStr ''errors''] no_keys;
          s2 = info s1 [PInt w, PStr ''warnings''] no_keys
      in info s2 [PInt i, PStr ''infos''] no_keys)"

subsection \<open>Construction of the logger\<close>

text \<open>
  \<open>__init__\<close> reads the environment and, in its exception handler, calls the module
  level name \<open>warning\<close>. That name is bound, to the \<open>warn\<close> method of the module's
  logger \<open>THE_LOGGER\<close>, only after \<open>THE_LOGGER\<close> has been constructed. The second
  argument \<open>the_logger\<close> is the logger the name \<open>warning\<close> is bound to at the time of
  the call, \<open>None\<close> while the name is not bound yet; it is returned too, since the
  warning counts on that logger and not on the one being constructed.
\<close>

definition add_file_handler :: "caldp_logger \<Rightarrow> caldp_logger" where
  "add_file_handler self =
     (case log_file self of
        None \<Rightarrow> self
      | Some f \<Rightarrow> self\<lparr>handlers := handlers self @ [FileHandler f]\<rparr>)"

definition add_console_handler :: "caldp_logger \<Rightarrow> stream \<Rightarrow> caldp_logger" where
  "add_console_handler self strm =
     (if console self = None
      then self\<lparr>handlers := handlers self @ [StreamHandler strm],
                console := Some (StreamHandler strm)\<rparr>
      else self)"

definition remove_console_handler :: "caldp_logger \<Rightarrow> caldp_logger" where
  "remove_console_handler self =
     (case console self of
        None \<Rightarrow> self
      | Some h \<Rightarrow> self\<lparr>handlers := remove1 h (handlers self), console := None\<rparr>)"

definition bad_format_args :: "string \<Rightarrow> pyval list" where
  "bad_format_args v =
     [PStr ''Bad format for CALDP_VERBOSITY ='', PStr (py_repr v),
      PStr (''Use e.g. -1 to squelch info, 0 for no debug,  '' @
            ''50 for default debug output. 100 max debug.'')]"

definition CaldpLogger_init ::
  "(string \<rightharpoonup> string) \<Rightarrow> caldp_logger option \<Rightarrow> string \<Rightarrow> bool \<Rightarrow> nat \<Rightarrow> bool \<Rightarrow> string option
     \<Rightarrow> caldp_logger option \<times> (error + caldp_logger)" where
  "CaldpLogger_init environ the_logger nm enable_console lvl enable_tm logfile =
     (let self0 = \<lparr>name = nm, handlers = [], filters = [], enable_time = enable_tm,
                   console = None, log_file = logfile, level = lvl,
                   errors = 0, warnings = 0, infos = 0, debugs = 0,
                   eol_pending = False, verbose_level = 0, emitted = [], written = []\<rparr>;
          self1 = (if logfile \<noteq> None then add_file_handler self0 else self0);
          enable_console' = (if logfile \<noteq> None then False else enable_console);
          self2 = (if enable_console'
                   then add_console_handler (self1\<lparr>log_file := None\<rparr>) Stderr else self1)
      in case environ ''CALDP_VERBOSITY'' of
           None \<Rightarrow> (the_logger, Inr (self2\<lparr>verbose_level := 0\<rparr>))
         | Some v \<Rightarrow>
             (case py_int v of
                Some i \<Rightarrow> (the_logger, Inr (self2\<lparr>verbose_level := i\<rparr>))
              | None \<Rightarrow>
                  (case the_logger of
                     None \<Rightarrow> (None, Inl (NameError ''warning''))
                   | Some g \<Rightarrow>
                       (Some (warn g (bad_format_args v) no_keys),
                        Inr (self2\<lparr>verbose_level := DEFAULT_VERBOSITY_LEVEL\<rparr>)))))"

text \<open>
  Importing the module runs \<open>THE_LOGGER = CaldpLogger("CALDP")\<close> with the defaults
  of the constructor, before any of the module's names for the logger's methods is bound.
\<close>

definition import_log :: "(string \<rightharpoonup> string) \<Rightarrow> error + caldp_logger" where
  "import_log environ = snd (CaldpLogger_init environ None ''CALDP'' True 10 True None)"

text \<open>The logger that the import leaves behind when the environment variable is unset.\<close>

definition fresh_logger :: caldp_logger where
  "fresh_logger =
     \<lparr>name = ''CALDP'', handlers = [StreamHandler Stderr], filters = [], enable_time = True,
      console = Some (StreamHandler Stderr), log_file = None, level = 10,
      errors = 0, warnings = 0, infos = 0, debugs = 0,
      eol_pending = False, verbose_level = 0, emitted = [], written = []\<rparr>"

text \<open>A call of one of the three counting entry points, with its arguments.\<close>

datatype log_call =
    Error_call "pyval list" keys
  | Warn_call "pyval list" keys
  | Info_call "pyval list" keys

fun do_call :: "caldp_logger \<Rightarrow> log_call \<Rightarrow> caldp_logger" where
  "do_call lg (Error_call args ks) = error lg args ks"
| "do_call lg (Warn_call args ks) = warn lg args ks"
| "do_call lg (Info_call args ks) = info lg args ks"

fun is_error_call :: "log_call \<Rightarrow> bool" where
  "is_error_call (Error_call _ _) = True"
| "is_error_call _ = False"

fun is_warn_call :: "log_call \<Rightarrow> bool" where
  "is_warn_call (Warn_call _ _) = True"
| "is_warn_call _ = False"

fun is_info_call :: "log_call \<Rightarrow> bool" where
  "is_info_call (Info_call _ _) = True"
| "is_info_call _ = False"

section \<open>Paths and the file system\<close>

subsection \<open>\<open>os.path\<close> on strings\<close>

definition os_path_basename :: "string \<Rightarrow> string" where
  "os_path_basename p = rev (takeWhile (\<lambda>c. c \<noteq> slash) (rev p))"

definition rstrip_slash :: "string \<Rightarrow> string" where
  "rstrip_slash s = rev (dropWhile (\<lambda>c. c = slash) (rev s))"

definition os_path_split :: "string \<Rightarrow> string \<times> string" where
  "os_path_split p =
     (let tail = os_path_basename p;
          head = take (length p - length tail) p
      in (if head \<noteq> [] \<and> head \<noteq> replicate (length head) slash then rstrip_slash head else head,
          tail))"

definition os_path_join :: "string \<Rightarrow> string \<Rightarrow> string" where
  "os_path_join a b =
     (if startswith b [slash] then b
      else if a = [] \<or> endswith a [slash] then a @ b
      else a @ [slash] @ b)"

text \<open>\<open>os.path.normpath\<close>: the loop over the components, then the function.\<close>

fun norm_comps :: "bool \<Rightarrow> string list \<Rightarrow> string list \<Rightarrow> string list" where
  "norm_comps initial new_comps [] = new_comps"
| "norm_comps initial new_comps (c # comps) =
     (if c = [] \<or> c = ''.'' then norm_comps initial new_comps comps
      else if c \<noteq> ''..'' \<or> (\<not> initial \<and> new_comps = [])
                \<or> (new_comps \<noteq> [] \<and> last new_comps = ''..'')
        then norm_comps initial (new_comps @ [c]) comps
      else norm_comps initial (butlast new_comps) comps)"

definition normpath :: "string \<Rightarrow> string" where
  "normpath path =
     (if path = [] then ''.''
      else
        let initial_slashes =
              (if startswith path [slash]
               then (if startswith path [slash, slash] \<and> \<not> startswith path [slash, slash, slash]
                     then 2 else 1)
               else (0::nat));
            comps = norm_comps (initial_slashes \<noteq> 0) [] (split_on slash path);
            p = replicate initial_slashes slash @ join [slash] comps
        in if p = [] then ''.'' else p)"

subsection \<open>The directory tree\<close>

text \<open>
  A file holds data or a tar archive, of which the member names are kept, in the order
  they were added. A directory holds its entries in the order the operating system lists
  them. Symbolic links, permissions and special files are not part of the model.
\<close>

datatype content = Blob string | Archive "string list"

datatype node = File content | Dir "(string \<times> node) list"

fun lookup :: "node \<Rightarrow> string list \<Rightarrow> node option"
  and lookup_in :: "(string \<times> node) list \<Rightarrow> string \<Rightarrow> string list \<Rightarrow> node option" where
  "lookup n [] = Some n"
| "lookup (File x) (c # cs) = None"
| "lookup (Dir es) (c # cs) = lookup_in es c cs"
| "lookup_in [] c cs = None"
| "lookup_in ((k, n) # es) c cs = (if k = c then lookup n cs else lookup_in es c cs)"

text \<open>
  \<open>alter f p r\<close> replaces what is at location \<open>p\<close> by \<open>f\<close> of it: \<open>None\<close> is no
  entry. A new entry goes to the end of its directory, a replaced one keeps its place,
  and a removed name is gone from the directory.
\<close>

fun alter :: "(node option \<Rightarrow> node option) \<Rightarrow> string list \<Rightarrow> node \<Rightarrow> node"
  and alter_in :: "(node option \<Rightarrow> node option) \<Rightarrow> string \<Rightarrow> string list
                     \<Rightarrow> (string \<times> node) list \<Rightarrow> (string \<times> node) list" where
  "alter f [] r = r"
| "alter f (c # cs) (File x) = File x"
| "alter f (c # cs) (Dir es) = Dir (alter_in f c cs es)"
| "alter_in f c cs [] =
     (if cs = [] then (case f None of None \<Rightarrow> [] | Some n \<Rightarrow> [(c, n)]) else [])"
| "alter_in f c cs ((k, n) # es) =
     (if k = c
      then (if cs = []
            then (case f (Some n) of
                    None \<Rightarrow> filter (\<lambda>e. fst e \<noteq> c) es
                  | Some n' \<Rightarrow> (k, n') # es)
            else (k, alter f cs n) # es)
      else (k, n) # alter_in f c cs es)"

fun is_Dir :: "node \<Rightarrow> bool" where
  "is_Dir (Dir es) = True"
| "is_Dir (File x) = False"

text \<open>
  The process: the tree, the working directory (the names from the root down), the
  module's logger and the objects the storage service has accepted.
\<close>

record world =
  root :: node
  cwd :: "string list"
  the_logger :: caldp_logger
  s3_objects :: "(string \<times> string \<times> content) list"

text \<open>
  Path resolution as the kernel does it: component by component from the root or from the
  working directory; every node passed through, also by an empty component, \<open>.\<close> or
  \<open>..\<close>, has to be a directory. The last name need not exist: the result is the
  location the path names.
\<close>

fun walk :: "node \<Rightarrow> string list \<Rightarrow> string list \<Rightarrow> error + string list" where
  "walk r cur [] = Inr cur"
| "walk r cur (c # cs) =
     (case lookup r cur of
        None \<Rightarrow> Inl FileNotFoundError
      | Some (File x) \<Rightarrow> Inl NotADirectoryError
      | Some (Dir es) \<Rightarrow>
          if c = [] \<or> c = ''.'' then walk r cur cs
          else if c = ''..'' then walk r (butlast cur) cs
          else walk r (cur @ [c]) cs)"

definition locate :: "world \<Rightarrow> string \<Rightarrow> error + string list" where
  "locate st p =
     (if p = [] then Inl FileNotFoundError
      else walk (root st) (if startswith p [slash] then [] else cwd st) (split_on slash p))"

definition stat :: "world \<Rightarrow> string \<Rightarrow> node option" where
  "stat st p = (case locate st p of Inl e \<Rightarrow> None | Inr loc \<Rightarrow> lookup (root st) loc)"

definition os_path_exists :: "world \<Rightarrow> string \<Rightarrow> bool" where
  "os_path_exists st p = (stat st p \<noteq> None)"

definition os_path_isdir :: "world \<Rightarrow> string \<Rightarrow> bool" where
  "os_path_isdir st p = (case stat st p of Some (Dir es) \<Rightarrow> True | _ \<Rightarrow> False)"

definition os_getcwd :: "world \<Rightarrow> string" where
  "os_getcwd st = slash # join [slash] (cwd st)"

definition os_path_abspath :: "world \<Rightarrow> string \<Rightarrow> string" where
  "os_path_abspath st p =
     normpath (if startswith p [slash] then p else os_path_join (os_getcwd st) p)"

definition os_chdir :: "string \<Rightarrow> world \<Rightarrow> world \<times> (error + unit)" where
  "os_chdir p st =
     (case locate st p of
        Inl e \<Rightarrow> (st, Inl e)
      | Inr loc \<Rightarrow>
          (case lookup (root st) loc of
             None \<Rightarrow> (st, Inl FileNotFoundError)
           | Some (File x) \<Rightarrow> (st, Inl NotADirectoryError)
           | Some (Dir es) \<Rightarrow> (st\<lparr>cwd := loc\<rparr>, Inr ())))"

definition os_remove :: "string \<Rightarrow> world \<Rightarrow> world \<times> (error + unit)" where
  "os_remove p st =
     (case locate st p of
        Inl e \<Rightarrow> (st, Inl e)
      | Inr loc \<Rightarrow>
          (case lookup (root st) loc of
             None \<Rightarrow> (st, Inl FileNotFoundError)
           | Some (Dir es) \<Rightarrow> (st, Inl IsADirectoryError)
           | Some (File x) \<Rightarrow> (st\<lparr>root := alter (\<lambda>_. None) loc (root st)\<rparr>, Inr ())))"

text \<open>Opening for reading, for writing (created or truncated), and for exclusive creation.\<close>

definition open_rb :: "world \<Rightarrow> string \<Rightarrow> error + content" where
  "open_rb st p =
     (case locate st p of
        Inl e \<Rightarrow> Inl e
      | Inr loc \<Rightarrow>
          (case lookup (root st) loc of
             None \<Rightarrow> Inl FileNotFoundError
           | Some (Dir es) \<Rightarrow> Inl IsADirectoryError
           | Some (File x) \<Rightarrow> Inr x))"

definition open_wb :: "string \<Rightarrow> content \<Rightarrow> world \<Rightarrow> world \<times> (error + unit)" where
  "open_wb p x st =
     (case locate st p of
        Inl e \<Rightarrow> (st, Inl e)
      | Inr loc \<Rightarrow>
          (case lookup (root st) loc of
             Some (Dir es) \<Rightarrow> (st, Inl IsADirectoryError)
           | _ \<Rightarrow> (st\<lparr>root := alter (\<lambda>_. Some (File x)) loc (root st)\<rparr>, Inr ())))"

definition open_xb :: "string \<Rightarrow> content \<Rightarrow> world \<Rightarrow> world \<times> (error + string list)" where
  "open_xb p x st =
     (case locate st p of
        Inl e \<Rightarrow> (st, Inl e)
      | Inr loc \<Rightarrow>
          (case lookup (root st) loc of
             Some n \<Rightarrow> (st, Inl FileExistsError)
           | None \<Rightarrow> (st\<lparr>root := alter (\<lambda>_. Some (File x)) loc (root st)\<rparr>, Inr loc)))"

subsection \<open>\<open>fnmatch\<close> and \<open>glob\<close>\<close>

text \<open>
  Shell patterns: \<open>*\<close> is any run of characters, \<open>?\<close> one character, \<open>[...]\<close> one
  character of a set (members and ranges, negated by a leading \<open>!\<close>); a bracket that
  is never closed stands for itself. Matching is by character, case included.
\<close>

definition bracket_split :: "string \<Rightarrow> (string \<times> string) option" where
  "bracket_split p =
     (let a = (if startswith p ''!'' then 1 else 0::nat);
          b = (if startswith (drop a p) '']'' then 1 else 0::nat);
          rest = drop (a + b) p
      in if CHR '']'' \<in> set rest
         then Some (take (a + b) p @ takeWhile (\<lambda>c. c \<noteq> CHR '']'') rest,
                    tl (dropWhile (\<lambda>c. c \<noteq> CHR '']'') rest))
         else None)"

fun class_member :: "string \<Rightarrow> char \<Rightarrow> bool" where
  "class_member [] c = False"
| "class_member [a] c = (c = a)"
| "class_member [a, b] c = (c = a \<or> c = b)"
| "class_member (a # m # b # rest) c =
     (if m = CHR ''-'' then (a \<le> c \<and> c \<le> b) \<or> class_member rest c
      else c = a \<or> class_member (m # b # rest) c)"

definition in_class :: "string \<Rightarrow> char \<Rightarrow> bool" where
  "in_class stuff c =
     (if startswith stuff ''!'' then \<not> class_member (tl stuff) c else class_member stuff c)"

fun fnmatch :: "string \<Rightarrow> string \<Rightarrow> bool" where
  "fnmatch [] n = (n = [])"
| "fnmatch (p # ps) [] = (if p = CHR ''*'' then fnmatch ps [] else False)"
| "fnmatch (p # ps) (c # cs) =
     (if p = CHR ''*'' then (if fnmatch ps (c # cs) then True else fnmatch (p # ps) cs)
      else if p = CHR ''?'' then fnmatch ps cs
      else if p = CHR ''['' then
        (case bracket_split ps of
           None \<Rightarrow> (if c = p then fnmatch ps cs else False)
         | Some (stuff, rest) \<Rightarrow> (if in_class stuff c then fnmatch rest cs else False))
      else (if c = p then fnmatch ps cs else False))"

definition has_magic :: "string \<Rightarrow> bool" where
  "has_magic s = (CHR ''*'' \<in> set s \<or> CHR ''?'' \<in> set s \<or> CHR ''['' \<in> set s)"

definition ishidden :: "string \<Rightarrow> bool" where
  "ishidden p = (case p of [] \<Rightarrow> False | c # cs \<Rightarrow> c = CHR ''.'')"

text \<open>\<open>glob._iterdir\<close>: the names in a directory, none when it cannot be listed.\<close>

definition iterdir :: "world \<Rightarrow> string \<Rightarrow> bool \<Rightarrow> string list" where
  "iterdir st dirname dironly =
     (case stat st (if dirname = [] then ''.'' else dirname) of
        Some (Dir es) \<Rightarrow> map fst (filter (\<lambda>e. \<not> dironly \<or> is_Dir (snd e)) es)
      | _ \<Rightarrow> [])"

definition glob1 :: "world \<Rightarrow> string \<Rightarrow> string \<Rightarrow> bool \<Rightarrow> string list" where
  "glob1 st dirname pattern dironly =
     (let names = iterdir st dirname dironly;
          names = (if \<not> ishidden pattern then filter (\<lambda>x. \<not> ishidden x) names else names)
      in filter (fnmatch pattern) names)"

definition glob0 :: "world \<Rightarrow> string \<Rightarrow> string \<Rightarrow> bool \<Rightarrow> string list" where
  "glob0 st dirname basename dironly =
     (if basename = [] then (if os_path_isdir st dirname then [basename] else [])
      else (if os_path_exists st (os_path_join dirname basename) then [basename] else []))"

function iglob :: "world \<Rightarrow> string \<Rightarrow> bool \<Rightarrow> string list" where
  "iglob st pathname dironly =
     (let dirname = fst (os_path_split pathname);
          basename = snd (os_path_split pathname)
      in if \<not> has_magic pathname then
           (if basename \<noteq> [] then (if os_path_exists st pathname then [pathname] else [])
            else (if os_path_isdir st dirname then [pathname] else []))
         else if dirname = [] then glob1 st dirname basename dironly
         else
           concat (map (\<lambda>d. map (os_path_join d)
                               ((if has_magic basename then glob1 else glob0) st d basename dironly))
                       (if dirname \<noteq> pathname \<and> has_magic dirname
                        then iglob st (fst (os_path_split pathname)) True
                        else [dirname])))"
  by pat_completeness auto

lemma rstrip_slash_prefix: "prefix (rstrip_slash s) s"
proof -
  have "rev (takeWhile (\<lambda>c. c = slash) (rev s) @ dropWhile (\<lambda>c. c = slash) (rev s)) = s"
    by (simp only: takeWhile_dropWhile_id rev_rev_ident)
  then have "rstrip_slash s @ rev (takeWhile (\<lambda>c. c = slash) (rev s)) = s"
    by (simp only: rev_append rstrip_slash_def)
  then show ?thesis by (metis prefixI)
qed

lemma split_head_prefix: "prefix (fst (os_path_split p)) p"
proof -
  have "prefix (take n p) p" for n by (rule take_is_prefix)
  moreover have "prefix (rstrip_slash (take n p)) p" for n
    using rstrip_slash_prefix [of "take n p"] take_is_prefix [of n p] by (rule prefix_order.trans)
  ultimately show ?thesis by (simp add: os_path_split_def Let_def)
qed

lemma split_head_shorter:
  "fst (os_path_split p) \<noteq> p \<Longrightarrow> length (fst (os_path_split p)) < length p"
  using split_head_prefix [of p]
  by (metis prefix_length_le prefix_order.antisym_conv le_neq_implies_less
      not_equal_is_parallel parallel_def prefix_length_prefix order_refl)

termination iglob
  by (relation "measure (\<lambda>(st, p, d). length p)") (auto simp: split_head_shorter)

declare iglob.simps [simp del]

definition glob :: "world \<Rightarrow> string \<Rightarrow> string list" where
  "glob st pathname = iglob st pathname False"

subsection \<open>\<open>tarfile\<close> and \<open>shutil\<close>\<close>

text \<open>
  \<open>TarFile.add(name)\<close>: nothing for the archive itself, a member for a file, and for
  a directory a member and then its entries, by name in sorted order. The member is
  named by the path given, without leading slashes; the name of a directory, as the
  archive gives it when read, has no trailing slashes either.
\<close>

definition member_name :: "string \<Rightarrow> string" where
  "member_name arcname = dropWhile (\<lambda>c. c = slash) arcname"

definition dir_member_name :: "string \<Rightarrow> string" where
  "dir_member_name arcname = rstrip_slash (member_name arcname)"

function add_node :: "world \<Rightarrow> string \<Rightarrow> string \<Rightarrow> string \<Rightarrow> node \<Rightarrow> string list" where
  "add_node st selfname nm arcname (File x) =
     (if os_path_abspath st nm = selfname then [] else [member_name arcname])"
| "add_node st selfname nm arcname (Dir es) =
     (if os_path_abspath st nm = selfname then []
      else dir_member_name arcname #
           concat (map (\<lambda>e. add_node st selfname (os_path_join nm (fst e))
                                (os_path_join arcname (fst e)) (snd e))
                       (sort_key fst es)))"
  by pat_completeness auto

lemma entry_size_less:
  "(a, b) \<in> set es \<Longrightarrow> size b < Suc (size_list (size_prod (\<lambda>x. 0) size) es)"
  by (induction es) (auto simp: less_Suc_eq_le)

termination add_node
  by (relation "measure (\<lambda>(st, selfname, nm, arcname, n). size n)")
     (auto simp: entry_size_less)

definition tar_add :: "world \<Rightarrow> string \<Rightarrow> string \<Rightarrow> error + string list" where
  "tar_add st selfname nm =
     (if os_path_abspath st nm = selfname then Inr []
      else
        case locate st nm of
          Inl e \<Rightarrow> Inl e
        | Inr loc \<Rightarrow>
            (case lookup (root st) loc of
               None \<Rightarrow> Inl FileNotFoundError
             | Some n \<Rightarrow> Inr (add_node st selfname nm nm n)))"

text \<open>The loop \<open>for f in file_list: t.add(f)\<close>: the members added, and the exception
  that stopped it, if any.\<close>

fun tar_add_all :: "world \<Rightarrow> string \<Rightarrow> string list \<Rightarrow> string list \<Rightarrow> string list \<times> error option" where
  "tar_add_all st selfname [] members = (members, None)"
| "tar_add_all st selfname (f # fs) members =
     (case tar_add st selfname f of
        Inl e \<Rightarrow> (members, Some e)
      | Inr ms \<Rightarrow> tar_add_all st selfname fs (members @ ms))"

definition samefile :: "world \<Rightarrow> string \<Rightarrow> string \<Rightarrow> bool" where
  "samefile st a b =
     (case (locate st a, locate st b) of
        (Inr la, Inr lb) \<Rightarrow> la = lb \<and> lookup (root st) la \<noteq> None
      | _ \<Rightarrow> False)"

definition shutil_copy :: "string \<Rightarrow> string \<Rightarrow> world \<Rightarrow> world \<times> (error + string)" where
  "shutil_copy src dst st =
     (let dst' = (if os_path_isdir st dst then os_path_join dst (os_path_basename src) else dst)
      in if samefile st src dst' then (st, Inl SameFileError)
         else
           case open_rb st src of
             Inl e \<Rightarrow> (st, Inl e)
           | Inr x \<Rightarrow>
               (case open_wb dst' x st of
                  (st', Inl e) \<Rightarrow> (st', Inl e)
                | (st', Inr u) \<Rightarrow> (st', Inr dst')))"

section \<open>file_ops.py\<close>

text \<open>\<open>log.info\<close>, \<open>log.warning\<close> and so on are the methods of the module's logger.\<close>

definition log_info :: "pyval list \<Rightarrow> world \<Rightarrow> world" where
  "log_info args st = st\<lparr>the_logger := info (the_logger st) args no_keys\<rparr>"

definition get_output_dir :: "world \<Rightarrow> string \<Rightarrow> error + string" where
  "get_output_dir st output_uri =
     (if startswith output_uri ''file'' then Inr (last (split_on CHR '':'' output_uri))
      else if startswith output_uri ''s3'' then Inr (os_path_abspath st ''outputs'')
      else Inl (UnboundLocalError ''output_dir''))"

definition find_files :: "world \<Rightarrow> string \<Rightarrow> string list" where
  "find_files st ipppssoot =
     (let search_fits = ipppssoot @ ''/*.fits'';
          search_tra = ipppssoot @ ''/*.tra'';
          search_prev = ipppssoot @ ''/previews/*'';
          file_list = glob st search_fits;
          file_list = file_list @ glob st search_tra;
          file_list = file_list @ glob st search_prev
      in file_list)"

text \<open>
  \<open>make_tar\<close>. The archive is created exclusively and holds the members added so far;
  leaving the \<open>with\<close> block closes it, also when \<open>add\<close> has raised, so that the file
  stays behind with the members written before the exception.
\<close>

definition write_at :: "string list \<Rightarrow> content \<Rightarrow> world \<Rightarrow> world" where
  "write_at loc x st = st\<lparr>root := alter (\<lambda>_. Some (File x)) loc (root st)\<rparr>"

definition make_tar :: "string list \<Rightarrow> string \<Rightarrow> world \<Rightarrow> world \<times> (error + string)" where
  "make_tar file_list ipppssoot st =
     (let tar = ipppssoot @ ''.tar.gz'';
          st1 = log_info [PStr ''Creating tarfile: '', PStr tar] st
      in case (if os_path_exists st1 tar then os_remove tar st1 else (st1, Inr ())) of
           (st2, Inl e) \<Rightarrow> (st2, Inl e)
         | (st2, Inr u) \<Rightarrow>
             (case open_xb tar (Archive []) st2 of
                (st3, Inl e) \<Rightarrow> (st3, Inl e)
              | (st3, Inr loc) \<Rightarrow>
                  (case tar_add_all st3 (os_path_abspath st3 tar) file_list [] of
                     (members, Some e) \<Rightarrow> (write_at loc (Archive members) st3, Inl e)
                   | (members, None) \<Rightarrow>
                       let st4 = write_at loc (Archive members) st3;
                           st5 = log_info [PStr ''Tar successful: '', PStr tar] st4;
                           tar_dest = os_path_join ipppssoot tar
                       in case shutil_copy tar ipppssoot st5 of
                            (st6, Inl e) \<Rightarrow> (st6, Inl e)
                          | (st6, Inr d) \<Rightarrow>
                              (case os_remove tar st6 of
                                 (st7, Inl e) \<Rightarrow> (st7, Inl e)
                               | (st7, Inr u') \<Rightarrow> (st7, Inr tar_dest)))))"

text \<open>
  \<open>upload_tar\<close>. The storage client is outside the program: creating it is taken
  to succeed, and \<open>upload\<close> is its \<open>upload_fileobj\<close>, which accepts the object
  or raises; an accepted object is recorded in \<open>s3_objects\<close>. The progress
  callback only writes to the terminal.
\<close>

definition upload_tar ::
  "(string \<Rightarrow> string \<Rightarrow> content \<Rightarrow> error + unit) \<Rightarrow> string \<Rightarrow> string \<Rightarrow> world
     \<Rightarrow> world \<times> (error + unit)" where
  "upload_tar upload tar output_path st =
     (let parts = split_on slash (drop 5 output_path);
          bucket = hd parts;
          pfx = join [slash] (tl parts);
          objectname = pfx @ [slash] @ os_path_basename tar;
          st1 = log_info [PStr (''Uploading: s3://'' @ bucket @ [slash] @ objectname)] st
      in if startswith output_path ''s3'' then
           (case open_rb st1 tar of
              Inl e \<Rightarrow> (st1, Inl e)
            | Inr x \<Rightarrow>
                (case upload bucket objectname x of
                   Inl e \<Rightarrow> (st1, Inl e)
                 | Inr u \<Rightarrow>
                     (st1\<lparr>s3_objects := s3_objects st1 @ [(bucket, objectname, x)]\<rparr>, Inr ())))
         else (st1, Inr ()))"

text \<open>
  \<open>tar_outputs\<close>. \<open>process.get_output_path\<close> belongs to another module of the
  package: it is the parameter \<open>get_output_path\<close>, a function that returns the full
  destination path or raises.
\<close>

definition tar_outputs ::
  "(string \<Rightarrow> string \<Rightarrow> error + string) \<Rightarrow> (string \<Rightarrow> string \<Rightarrow> content \<Rightarrow> error + unit)
     \<Rightarrow> string \<Rightarrow> string \<Rightarrow> world \<Rightarrow> world \<times> (error + (string \<times> string list) option)" where
  "tar_outputs get_output_path upload ipppssoot output_uri st =
     (let working_dir = os_getcwd st
      in case get_output_path output_uri ipppssoot of
           Inl e \<Rightarrow> (st, Inl e)
         | Inr output_path \<Rightarrow>
         (case get_output_dir st output_uri of
           Inl e \<Rightarrow> (st, Inl e)
         | Inr output_dir \<Rightarrow>
         (case os_chdir output_dir st of
           (st1, Inl e) \<Rightarrow> (st1, Inl e)
         | (st1, Inr u1) \<Rightarrow>
         (let file_list = find_files st1 ipppssoot
          in case make_tar file_list ipppssoot st1 of
           (st2, Inl e) \<Rightarrow> (st2, Inl e)
         | (st2, Inr tar) \<Rightarrow>
         (case upload_tar upload tar output_path st2 of
           (st3, Inl e) \<Rightarrow> (st3, Inl e)
         | (st3, Inr u3) \<Rightarrow>
         (case os_chdir working_dir st3 of
           (st4, Inl e) \<Rightarrow> (st4, Inl e)
         | (st4, Inr u4) \<Rightarrow>
             (st4, Inr (if startswith output_uri ''file''
                        then Some (tar, file_list) else None))))))))"

section \<open>Auxiliary notions for the statements\<close>

text \<open>
  A proper name is what a directory entry can be called. The working directory is kept
  as the list of the names from the root, as \<open>os.getcwd()\<close> reports it.
\<close>

definition proper_name :: "string \<Rightarrow> bool" where
  "proper_name c = (c \<noteq> [] \<and> c \<noteq> ''.'' \<and> c \<noteq> ''..'' \<and> slash \<notin> set c)"

definition wf_cwd :: "world \<Rightarrow> bool" where
  "wf_cwd st = list_all proper_name (cwd st)"

definition opt_is_dir :: "node option \<Rightarrow> bool" where
  "opt_is_dir x = (case x of Some (Dir es) \<Rightarrow> True | _ \<Rightarrow> False)"

definition leaf_fun :: "(node option \<Rightarrow> node option) \<Rightarrow> bool" where
  "leaf_fun f = (\<forall>x. case f x of Some (Dir es) \<Rightarrow> False | _ \<Rightarrow> True)"

definition same_dirs :: "node \<Rightarrow> node \<Rightarrow> bool" where
  "same_dirs r r' = (\<forall>q. opt_is_dir (lookup r q) = opt_is_dir (lookup r' q))"

text \<open>A small process to run the functions on, and stand-ins for the two collaborators.\<close>

definition plain_world :: world where
  "plain_world =
     \<lparr>root = Dir [(''home'', Dir [(''outputs'',
                Dir [(''J1'', Dir [(''a.fits'', File (Blob ''A'')),
                                   (''.b.fits'', File (Blob ''B'')),
                                   (''previews'', Dir [(''c.png'', File (Blob ''C'')),
                                                       (''.d.png'', File (Blob ''D''))])])])])],
      cwd = [''home''], the_logger = fresh_logger, s3_objects = []\<rparr>"

definition outputs_world :: world where
  "outputs_world = plain_world\<lparr>cwd := [''home'', ''outputs'']\<rparr>"

definition sample_output_path :: "string \<Rightarrow> string \<Rightarrow> error + string" where
  "sample_output_path output_uri ipppssoot = Inr (output_uri @ ''/'' @ ipppssoot)"

definition accepting_upload :: "string \<Rightarrow> string \<Rightarrow> content \<Rightarrow> error + unit" where
  "accepting_upload bucket key x = Inr ()"

definition failing_upload :: "string \<Rightarrow> string \<Rightarrow> content \<Rightarrow> error + unit" where
  "failing_upload bucket key x = Inl ClientError"

text \<open>
  For \<open>make_tar\<close> run in working directory \<open>C\<close> for job \<open>J\<close>: the location of
  the transient archive and of its copy in the job directory; the tree once the
  archive has been opened, and the tree a successful call leaves, with member list
  \<open>M\<close>; and the state of the logger after the two messages.
\<close>

definition tar_loc :: "string list \<Rightarrow> string \<Rightarrow> string list" where
  "tar_loc C J = C @ [J @ ''.tar.gz'']"

definition dest_loc :: "string list \<Rightarrow> string \<Rightarrow> string list" where
  "dest_loc C J = C @ [J, J @ ''.tar.gz'']"

definition opened_root :: "string list \<Rightarrow> string \<Rightarrow> node \<Rightarrow> node" where
  "opened_root C J r =
     alter (\<lambda>_. Some (File (Archive []))) (tar_loc C J) (alter (\<lambda>_. None) (tar_loc C J) r)"

definition made_root :: "string list \<Rightarrow> string \<Rightarrow> string list \<Rightarrow> node \<Rightarrow> node" where
  "made_root C J M r =
     alter (\<lambda>_. None) (tar_loc C J)
       (alter (\<lambda>_. Some (File (Archive M))) (dest_loc C J)
          (alter (\<lambda>_. Some (File (Archive M))) (tar_loc C J) (opened_root C J r)))"

definition tar_logged :: "string \<Rightarrow> world \<Rightarrow> world" where
  "tar_logged J st =
     log_info [PStr ''Tar successful: '', PStr (J @ ''.tar.gz'')]
       (log_info [PStr ''Creating tarfile: '', PStr (J @ ''.tar.gz'')] st)"

text \<open>
  The members that the loop of \<open>make_tar\<close> adds to an archive that has just been
  created empty at the transient location, whatever was there before.
\<close>

definition fresh_members :: "world \<Rightarrow> string \<Rightarrow> string list \<Rightarrow> string list" where
  "fresh_members st J fs =
     fst (tar_add_all (st\<lparr>root := opened_root (cwd st) J (root st)\<rparr>)
            (os_path_abspath st (J @ ''.tar.gz'')) fs [])"

text \<open>The sample process with a transient archive left behind by an earlier run.\<close>

definition stale_world :: world where
  "stale_world =
     outputs_world
       \<lparr>root := Dir [(''home'', Dir [(''outputs'',
                  Dir [(''J1'', Dir [(''a.fits'', File (Blob ''A'')),
                                     (''.b.fits'', File (Blob ''B'')),
                                     (''previews'', Dir [(''c.png'', File (Blob ''C'')),
                                                         (''.d.png'', File (Blob ''D''))])]),
                       (''J1.tar.gz'', File (Archive [''old/member'']))])])]\<rparr>"

text \<open>
  An entry of the file list is above the archive when it names the job directory, the
  working directory or a directory above it: the directories that contain the copy
  of the archive.
\<close>

definition not_above_archive :: "world \<Rightarrow> string \<Rightarrow> string \<Rightarrow> bool" where
  "not_above_archive st J f =
     (case locate st f of
        Inl e \<Rightarrow> True
      | Inr loc \<Rightarrow> \<not> strict_prefix loc (dest_loc (cwd st) J))"

section \<open>Properties of the logger\<close>

lemma import_log_unset: "import_log Map.empty = Inr fresh_logger"
  by (simp add: import_log_def CaldpLogger_init_def add_console_handler_def fresh_logger_def)

lemma logger_call_counters:
  "errors (logger_call sev lg args ks) = errors lg"
  "warnings (logger_call sev lg args ks) = warnings lg"
  "infos (logger_call sev lg args ks) = infos lg"
  by (simp_all add: logger_call_def eformat_def write_out_def Let_def)

lemma do_call_status:
  "status (do_call lg c) =
     (errors lg + (if is_error_call c then 1 else 0),
      warnings lg + (if is_warn_call c then 1 else 0),
      infos lg + (if is_info_call c then 1 else 0))"
  by (cases c) (simp_all add: status_def error_def warn_def info_def Let_def logger_call_counters)

lemma foldl_do_call_status:
  "status (foldl do_call lg cs) =
     (errors lg + int (length (filter is_error_call cs)),
      warnings lg + int (length (filter is_warn_call cs)),
      infos lg + int (length (filter is_info_call cs)))"
proof (induction cs arbitrary: lg)
  case Nil
  show ?case by (simp add: status_def)
next
  case (Cons c cs)
  have "status (do_call lg c) =
          (errors (do_call lg c), warnings (do_call lg c), infos (do_call lg c))"
    by (simp add: status_def)
  with do_call_status [of lg c] have
    "errors (do_call lg c) = errors lg + (if is_error_call c then 1 else 0)"
    "warnings (do_call lg c) = warnings lg + (if is_warn_call c then 1 else 0)"
    "infos (do_call lg c) = infos lg + (if is_info_call c then 1 else 0)"
    by simp_all
  then show ?case using Cons.IH [of "do_call lg c"] by simp
qed

text \<open>
  C2 (the code at the failing input). With \<open>CALDP_VERBOSITY=abc\<close> in the environment,
  importing the module does not fall back to level 50 with a warning: the handler of the
  constructor calls \<open>warning\<close> before the module has bound that name, and the
  construction of \<open>THE_LOGGER\<close> ends in NameError.
\<close>

theorem import_log_bad_verbosity_raises:
  "py_int ''abc'' = None \<and>
   import_log [''CALDP_VERBOSITY'' \<mapsto> ''abc''] = Inl (NameError ''warning'')"
  by (simp add: import_log_def CaldpLogger_init_def py_int_def parse_digits_def strip_def
      is_space_def is_digit_def Let_def)

text \<open>
  C5. For every level \<open>L\<close> from -3 to 100, \<open>set_verbose(L)\<close> succeeds and
  \<open>get_verbose()\<close> then returns \<open>L\<close>; \<open>set_verbose(True)\<close> leaves 50 and
  \<open>set_verbose(False)\<close> leaves 0; each of the calls returns the level that was active
  before it.
\<close>

theorem set_verbose_then_get_verbose:
  "(- 3 \<le> L \<and> L \<le> 100 \<longrightarrow>
      (\<exists>lg'. set_verbose lg (LInt L) = Inr (get_verbose lg, lg') \<and> get_verbose lg' = L))
   \<and> (\<exists>lg'. set_verbose lg (LBool True) = Inr (get_verbose lg, lg') \<and> get_verbose lg' = 50)
   \<and> (\<exists>lg'. set_verbose lg (LBool False) = Inr (get_verbose lg, lg') \<and> get_verbose lg' = 0)"
  by (simp add: set_verbose_def get_verbose_def level_num_def DEFAULT_VERBOSITY_LEVEL_def Let_def)

theorem set_verbose_then_get_verbose_witness:
  "(- 3 \<le> (60::int) \<and> (60::int) \<le> 100)
   \<and> (\<exists>lg'. set_verbose fresh_logger (LInt 60) = Inr (0, lg') \<and> get_verbose lg' = 60)
   \<and> (\<exists>lg'. set_verbose fresh_logger (LBool True) = Inr (0, lg') \<and> get_verbose lg' = 50)
   \<and> (\<exists>lg'. set_verbose fresh_logger (LBool False) = Inr (0, lg') \<and> get_verbose lg' = 0)"
  using set_verbose_then_get_verbose [of 60 fresh_logger]
  by (simp add: get_verbose_def fresh_logger_def)

text \<open>
  C6. After \<open>reset()\<close>, any sequence of calls of \<open>error\<close>, \<open>warn\<close> and \<open>info\<close>, in
  any order, with any arguments and at any verbosity level of the logger, leaves
  \<open>status()\<close> equal to the numbers of the calls of each kind; and \<open>status()\<close> right
  after \<open>reset()\<close> is (0, 0, 0) whatever the logger was before.
\<close>

theorem status_counts_calls:
  "status (foldl do_call (reset lg) cs) =
     (int (length (filter is_error_call cs)),
      int (length (filter is_warn_call cs)),
      int (length (filter is_info_call cs)))
   \<and> status (reset lg) = (0, 0, 0)"
  by (simp add: foldl_do_call_status) (simp add: reset_def status_def)

lemma fold_filters_nil: "filters lg = [] \<Longrightarrow> format lg args ks = join (case k_sep ks of None \<Rightarrow> '' '' | Some s \<Rightarrow> s) (map py_str args) @ (case k_end ks of None \<Rightarrow> [newline] | Some e \<Rightarrow> e)"
  by (simp add: format_def Let_def)

lemma filters_write_out [simp]: "filters (write_out lg args ks) = filters lg"
  by (simp add: write_out_def Let_def)

lemma eformat_msg:
  "filters lg = [] \<Longrightarrow> snd (eformat lg args no_keys) = join '' '' (map py_str args)"
  by (simp add: eformat_def Let_def fold_filters_nil no_keys_def)

lemma emitted_write_out [simp]: "emitted (write_out lg args ks) = emitted lg"
  by (simp add: write_out_def Let_def)

lemma emitted_logger_call:
  "filters lg = [] \<Longrightarrow>
   emitted (logger_call sev lg args no_keys) = emitted lg @ [(sev, join '' '' (map py_str args))]"
  using eformat_msg [of lg args]
  by (simp add: logger_call_def eformat_def Let_def split: prod.splits)

text \<open>
  C7, as stated, fails: the message that \<open>info\<close> hands to the sink is the joined
  arguments alone, with no newline appended.
\<close>

theorem info_message_has_no_newline:
  "emitted (info fresh_logger [PStr ''a'', PInt 2] no_keys) = [(INFO, ''a 2'')]
   \<and> ''a 2'' \<noteq> join '' '' (map py_str [PStr ''a'', PInt 2]) @ [newline]"
  by code_simp

text \<open>
  C7, amended. With no filter registered and no keyword arguments, \<open>format\<close> itself
  returns the stringified arguments joined by single spaces and one newline; but
  \<open>info\<close>, \<open>warn\<close> and \<open>error\<close> format through \<open>eformat\<close>, which sets the end
  to the empty string, and hand the sink the joined text without a newline. The sink
  receives the message if and only if the verbosity level is above -1 for \<open>info\<close>,
  above -2 for \<open>warn\<close> and above -3 for \<open>error\<close>. A \<open>verbose\<close> call whose
  verbosity number (50 when not given) exceeds the level of the logger changes nothing.
\<close>

theorem log_messages_and_thresholds:
  "(filters lg = [] \<longrightarrow>
      format lg args no_keys = join '' '' (map py_str args) @ [newline]
      \<and> emitted (info lg args no_keys) =
            (if verbose_level lg > - 1 then emitted lg @ [(INFO, join '' '' (map py_str args))]
             else emitted lg)
      \<and> emitted (warn lg args no_keys) =
            (if verbose_level lg > - 2 then emitted lg @ [(WARNING, join '' '' (map py_str args))]
             else emitted lg)
      \<and> emitted (error lg args no_keys) =
            (if verbose_level lg > - 3 then emitted lg @ [(ERROR, join '' '' (map py_str args))]
             else emitted lg))
   \<and> (k_verbosity ks = Some v \<and> verbose_level lg < v \<longrightarrow> verbose lg args ks = lg)
   \<and> (k_verbosity ks = None \<and> verbose_level lg < 50 \<longrightarrow> verbose lg args ks = lg)"
  by (simp add: fold_filters_nil no_keys_def [symmetric] info_def warn_def error_def Let_def emitted_logger_call
        verbose_def should_output_def DEFAULT_VERBOSITY_LEVEL_def)
     (simp add: no_keys_def)

theorem log_messages_and_thresholds_witness:
  "filters fresh_logger = []
   \<and> format fresh_logger [PStr ''a'', PInt 2] no_keys = ''a 2'' @ [newline]
   \<and> emitted (info fresh_logger [PStr ''a'', PInt 2] no_keys) = [(INFO, ''a 2'')]
   \<and> emitted (warn fresh_logger [PStr ''a'', PInt 2] no_keys) = [(WARNING, ''a 2'')]
   \<and> emitted (error fresh_logger [PStr ''a'', PInt 2] no_keys) = [(ERROR, ''a 2'')]
   \<and> (k_verbosity (no_keys\<lparr>k_verbosity := Some 60\<rparr>) = Some 60 \<and> verbose_level fresh_logger < 60)
   \<and> verbose fresh_logger [PStr ''a''] (no_keys\<lparr>k_verbosity := Some 60\<rparr>) = fresh_logger
   \<and> (k_verbosity no_keys = None \<and> verbose_level fresh_logger < 50)
   \<and> verbose fresh_logger [PStr ''a''] no_keys = fresh_logger"
proof -
  have j: "join '' '' (map py_str [PStr ''a'', PInt 2]) = ''a 2''" by code_simp
  have f: "filters fresh_logger = []" "verbose_level fresh_logger = 0" "emitted fresh_logger = []"
    by (simp_all add: fresh_logger_def)
  have k: "k_verbosity (no_keys\<lparr>k_verbosity := Some 60\<rparr>) = Some 60" "k_verbosity no_keys = None"
    by (simp_all add: no_keys_def)
  show ?thesis
    using log_messages_and_thresholds [of fresh_logger "[PStr ''a'', PInt 2]" "no_keys\<lparr>k_verbosity := Some 60\<rparr>" 60]
          log_messages_and_thresholds [of fresh_logger "[PStr ''a'']" "no_keys\<lparr>k_verbosity := Some 60\<rparr>" 60]
          log_messages_and_thresholds [of fresh_logger "[PStr ''a'']" "no_keys" 60]
    unfolding j by (simp add: f k)
qed

section \<open>Properties of file_ops\<close>

subsection \<open>Strings and paths\<close>

lemma split_on_notin: "c \<notin> set s \<Longrightarrow> split_on c s = [s]"
  by (induction s) auto

lemma split_on_ne [simp]: "split_on c s \<noteq> []"
  by (induction s) (auto split: list.splits)

lemma split_on_append:
  "split_on c (pre @ c # rest) = split_on c pre @ split_on c rest"
proof (induction pre)
  case Nil
  show ?case by simp
next
  case (Cons x pre)
  obtain w ws where w: "split_on c pre = w # ws"
    by (cases "split_on c pre") (use split_on_ne [of c pre] in auto)
  show ?case using Cons w by simp
qed

lemma last_split_on_append:
  "last (split_on c (pre @ c # rest)) = last (split_on c rest)"
  by (simp add: split_on_append)

lemma split_on_join:
  "cs \<noteq> [] \<Longrightarrow> list_all (\<lambda>x. c \<notin> set x) cs \<Longrightarrow> split_on c (join [c] cs) = cs"
proof (induction cs rule: induct_list012)
  case 1
  then show ?case by simp
next
  case (2 x)
  then show ?case by (simp add: split_on_notin)
next
  case (3 x y zs)
  then have "split_on c (join [c] (y # zs)) = y # zs" by simp
  moreover from 3 have "split_on c x = [x]" by (simp add: split_on_notin)
  ultimately show ?case using split_on_append [of c x "join [c] (y # zs)"] by simp
qed

lemma walk_proper:
  "list_all proper_name cs \<Longrightarrow> walk r cur cs = Inr loc \<Longrightarrow> loc = cur @ cs"
proof (induction cs arbitrary: cur)
  case Nil
  then show ?case by simp
next
  case (Cons c cs)
  from Cons.prems(1) have pc: "proper_name c" and cs: "list_all proper_name cs"
    by simp_all
  from pc have c: "c \<noteq> []" "c \<noteq> ''.''" "c \<noteq> ''..''"
    by (simp_all add: proper_name_def)
  from Cons.prems(2) c have "walk r (cur @ [c]) cs = Inr loc"
    by (auto split: option.splits node.splits)
  from Cons.IH [OF cs this] show ?case by simp
qed

lemma walk_skip_empty: "walk r cur ([] # cs) = Inr loc \<Longrightarrow> walk r cur cs = Inr loc"
  by (auto split: option.splits node.splits)

lemma locate_getcwd:
  assumes "wf_cwd st" and "locate st' (os_getcwd st) = Inr loc"
  shows "loc = cwd st"
proof -
  from assms(2) have w: "walk (root st') [] (split_on slash (os_getcwd st)) = Inr loc"
    by (simp add: locate_def os_getcwd_def startswith_def)
  show ?thesis
  proof (cases "cwd st = []")
    case True
    then have "split_on slash (os_getcwd st) = [[], []]" by (simp add: os_getcwd_def)
    with w have "walk (root st') [] [] = Inr loc"
      by (metis walk_skip_empty)
    with True show ?thesis by simp
  next
    case False
    from assms(1) have "list_all (\<lambda>x. slash \<notin> set x) (cwd st)"
      by (simp add: wf_cwd_def proper_name_def list_all_iff)
    with False have "split_on slash (join [slash] (cwd st)) = cwd st" by (rule split_on_join)
    then have "split_on slash (os_getcwd st) = [] # cwd st" by (simp add: os_getcwd_def)
    with w have "walk (root st') [] (cwd st) = Inr loc"
      by (metis walk_skip_empty)
    with assms(1) show ?thesis using walk_proper [of "cwd st" "root st'" "[]" loc]
      by (simp add: wf_cwd_def)
  qed
qed

lemma chdir_getcwd:
  "wf_cwd st \<Longrightarrow> os_chdir (os_getcwd st) st' = (st'', Inr u) \<Longrightarrow> cwd st'' = cwd st"
  by (auto simp: os_chdir_def split: sum.splits option.splits node.splits dest: locate_getcwd)

lemma endswith_suffix: "endswith n p = suffix p n"
proof
  assume "endswith n p"
  then have "n = take (length n - length p) n @ p"
    by (metis append_take_drop_id endswith_def)
  then show "suffix p n" by (metis suffixI)
next
  assume "suffix p n"
  then obtain a where "n = a @ p" by (auto simp: suffix_def)
  then show "endswith n p" by (simp add: endswith_def)
qed

lemma fnmatch_literal: "\<not> has_magic lit \<Longrightarrow> fnmatch lit n = (n = lit)"
proof (induction lit arbitrary: n)
  case Nil
  then show ?case by simp
next
  case (Cons p ps)
  then have p: "p \<noteq> CHR ''*''" "p \<noteq> CHR ''?''" "p \<noteq> CHR ''[''" and ps: "\<not> has_magic ps"
    by (auto simp: has_magic_def)
  show ?case using p Cons.IH [OF ps] by (cases n) auto
qed

lemma fnmatch_star_literal:
  "\<not> has_magic lit \<Longrightarrow> fnmatch (CHR ''*'' # lit) n = suffix lit n"
proof (induction n)
  case Nil
  then show ?case by (simp add: fnmatch_literal) auto
next
  case (Cons c cs)
  then show ?case by (auto simp: fnmatch_literal suffix_Cons)
qed

lemma fnmatch_star: "fnmatch ''*'' n"
  using fnmatch_star_literal [of "[]" n] by (simp add: has_magic_def)

lemma basename_join: "slash \<notin> set b \<Longrightarrow> os_path_basename (d @ slash # b) = b"
proof -
  assume "slash \<notin> set b"
  then have "takeWhile (\<lambda>c. c \<noteq> slash) (rev b @ slash # rev d) = rev b"
    by (subst takeWhile_append2) auto
  then show ?thesis by (simp add: os_path_basename_def)
qed

lemma rstrip_slash_one: "d \<noteq> [] \<Longrightarrow> last d \<noteq> slash \<Longrightarrow> rstrip_slash (d @ [slash]) = d"
  by (cases d rule: rev_cases) (simp_all add: rstrip_slash_def)

lemma split_join:
  assumes "slash \<notin> set b" "d \<noteq> []" "last d \<noteq> slash"
  shows "os_path_split (d @ slash # b) = (d, b)"
proof -
  have b: "os_path_basename (d @ slash # b) = b" using assms(1) by (rule basename_join)
  have h: "take (length (d @ slash # b) - length b) (d @ slash # b) = d @ [slash]" by simp
  have "last d \<in> set (d @ [slash])" using assms(2) by simp
  then have "d @ [slash] \<noteq> replicate (length (d @ [slash])) slash"
    using assms(3) by (metis in_set_replicate)
  then show ?thesis using assms(2,3)
    unfolding os_path_split_def Let_def b h by (simp add: rstrip_slash_one)
qed

lemma iglob_star:
  assumes "\<not> has_magic d" "d \<noteq> []" "last d \<noteq> slash" "has_magic b" "slash \<notin> set b"
  shows "iglob st (d @ slash # b) dironly = map (os_path_join d) (glob1 st d b dironly)"
proof -
  have s: "os_path_split (d @ slash # b) = (d, b)" using assms(5,2,3) by (rule split_join)
  have m: "has_magic (d @ slash # b)" using assms(4) by (auto simp: has_magic_def)
  show ?thesis
    by (subst iglob.simps) (simp add: s m assms Let_def)
qed

lemma glob1_suffix:
  "\<not> has_magic lit \<Longrightarrow>
   glob1 st d (CHR ''*'' # lit) dironly =
     filter (\<lambda>n. \<not> ishidden n \<and> endswith n lit) (iterdir st d dironly)"
  by (simp add: glob1_def Let_def ishidden_def fnmatch_star_literal endswith_suffix del: fnmatch.simps)

lemma proper_name_last: "proper_name J \<Longrightarrow> J \<noteq> [] \<and> last J \<noteq> slash"
  unfolding proper_name_def by (metis last_in_set)

lemma find_files_groups:
  assumes "proper_name J" "\<not> has_magic J"
  shows "find_files st J =
      map (os_path_join J)
        (filter (\<lambda>n. \<not> ishidden n \<and> endswith n ''.fits'') (iterdir st J False))
    @ map (os_path_join J)
        (filter (\<lambda>n. \<not> ishidden n \<and> endswith n ''.tra'') (iterdir st J False))
    @ map (os_path_join (J @ ''/previews''))
        (filter (\<lambda>n. \<not> ishidden n) (iterdir st (J @ ''/previews'') False))"
proof -
  from assms(1) have J: "J \<noteq> []" "last J \<noteq> slash" using proper_name_last by auto
  have sl: "''/'' = [slash]" by (simp add: slash_def)
  have m: "has_magic ''*.fits''" "has_magic ''*.tra''" "has_magic ''*''"
          "\<not> has_magic ''.fits''" "\<not> has_magic ''.tra''" "\<not> has_magic []"
          "\<not> has_magic (J @ ''/previews'')"
    using assms(2) by (auto simp: has_magic_def)
  have n: "slash \<notin> set ''*.fits''" "slash \<notin> set ''*.tra''" "slash \<notin> set ''*''"
    by (simp_all add: slash_def)
  have p: "J @ ''/previews'' \<noteq> []" "last (J @ ''/previews'') \<noteq> slash"
    by (simp_all add: slash_def)
  have a: "glob st (J @ ''/*.fits'') = map (os_path_join J) (glob1 st J ''*.fits'' False)"
    using iglob_star [OF assms(2) J m(1) n(1), of st False] by (simp add: glob_def slash_def)
  have b: "glob st (J @ ''/*.tra'') = map (os_path_join J) (glob1 st J ''*.tra'' False)"
    using iglob_star [OF assms(2) J m(2) n(2), of st False] by (simp add: glob_def slash_def)
  have c: "glob st (J @ ''/previews/*'') =
             map (os_path_join (J @ ''/previews'')) (glob1 st (J @ ''/previews'') ''*'' False)"
    using iglob_star [OF m(7) p m(3) n(3), of st False] by (simp add: glob_def slash_def)
  show ?thesis
    unfolding find_files_def Let_def a b c
    using glob1_suffix [OF m(4), of st J False] glob1_suffix [OF m(5), of st J False]
          glob1_suffix [OF m(6), of st "J @ ''/previews''" False]
    by (simp add: endswith_def)
qed

lemma not_startswith_slash: "J \<noteq> [] \<Longrightarrow> slash \<notin> set J \<Longrightarrow> \<not> startswith (J @ t) [slash]"
  by (cases J) (auto simp: startswith_def)

lemma walk_non_dir: "\<not> opt_is_dir (lookup r cur) \<Longrightarrow> \<exists>e. walk r cur (c # cs) = Inl e"
  by (cases "lookup r cur") (auto simp: opt_is_dir_def split: node.splits)

lemma walk_proper_step:
  "proper_name c \<Longrightarrow> opt_is_dir (lookup r cur) \<Longrightarrow> walk r cur (c # cs) = walk r (cur @ [c]) cs"
  by (cases "lookup r cur") (auto simp: opt_is_dir_def proper_name_def split: node.splits)

lemma locate_proper:
  assumes "proper_name J" "opt_is_dir (lookup (root st) (cwd st))"
  shows "locate st J = Inr (cwd st @ [J])"
proof -
  from assms(1) have J: "J \<noteq> []" "slash \<notin> set J" by (auto simp: proper_name_def)
  have "\<not> startswith J [slash]" using not_startswith_slash [OF J, of "[]"] by simp
  moreover have "split_on slash J = [J]" using J(2) by (rule split_on_notin)
  moreover have "walk (root st) (cwd st) [J] = Inr (cwd st @ [J])"
    using walk_proper_step [OF assms, of "[]"] by simp
  ultimately show ?thesis using J(1) by (simp add: locate_def)
qed

lemma stat_under_non_dir:
  assumes "proper_name J" "\<not> os_path_isdir st J" "slash \<notin> set b"
  shows "stat st (J @ slash # b) = None"
proof -
  from assms(1) have J: "J \<noteq> []" "slash \<notin> set J"
    by (auto simp: proper_name_def)
  have sp: "split_on slash (J @ slash # b) = [J, b]"
    using J(2) assms(3) by (simp add: split_on_append split_on_notin)
  have st: "\<not> startswith (J @ slash # b) [slash]"
    using J by (rule not_startswith_slash)
  have loc: "locate st (J @ slash # b) = walk (root st) (cwd st) [J, b]"
    using st by (simp add: locate_def sp)
  have "\<exists>e. walk (root st) (cwd st) [J, b] = Inl e"
  proof (cases "opt_is_dir (lookup (root st) (cwd st))")
    case False
    then show ?thesis by (rule walk_non_dir)
  next
    case True
    with assms(1) have "locate st J = Inr (cwd st @ [J])" by (rule locate_proper)
    with assms(2) have "\<not> opt_is_dir (lookup (root st) (cwd st @ [J]))"
      by (auto simp: os_path_isdir_def stat_def opt_is_dir_def split: option.splits node.splits)
    then have "\<exists>e. walk (root st) (cwd st @ [J]) [b] = Inl e" by (rule walk_non_dir)
    then show ?thesis using walk_proper_step [OF assms(1) True, of "[b]"] by (simp del: walk.simps)
  qed
  then obtain e where "locate st (J @ slash # b) = Inl e" using loc by auto
  then show ?thesis by (simp add: stat_def)
qed

lemma iterdir_non_dir:
  "d \<noteq> [] \<Longrightarrow> \<not> os_path_isdir st d \<Longrightarrow> iterdir st d dironly = []"
  by (auto simp: iterdir_def os_path_isdir_def split: option.splits node.splits)

subsection \<open>The directory tree under \<open>alter\<close>\<close>

lemma opt_is_dir_simps [simp]:
  "opt_is_dir None = False"
  "opt_is_dir (Some (File x)) = False"
  "opt_is_dir (Some (Dir es)) = True"
  by (simp_all add: opt_is_dir_def)

lemma opt_is_dirE: "opt_is_dir x \<Longrightarrow> \<exists>es. x = Some (Dir es)"
  by (cases x) (auto simp: opt_is_dir_def split: node.splits)

lemma lookup_in_filter_ne [simp]: "lookup_in (filter (\<lambda>e. fst e \<noteq> c) es) c cs = None"
  by (induction es) auto

lemma lookup_in_filter_other [simp]:
  "d \<noteq> c \<Longrightarrow> lookup_in (filter (\<lambda>e. fst e \<noteq> c) es) d ds = lookup_in es d ds"
  by (induction es) auto

lemma lookup_alter_same_aux:
  "(p \<noteq> [] \<longrightarrow> opt_is_dir (lookup r (butlast p)) \<longrightarrow> lookup (alter f p r) p = f (lookup r p))"
  "(opt_is_dir (lookup (Dir es) (butlast (c # cs)))
      \<longrightarrow> lookup_in (alter_in f c cs es) c cs = f (lookup_in es c cs))"
proof (induction f p r and f c cs es rule: alter_alter_in.induct)
  case (1 f r)
  then show ?case by simp
next
  case (2 f c cs x)
  then show ?case by (cases cs) auto
next
  case (3 f c cs es)
  then show ?case by simp
next
  case (4 f c cs)
  then show ?case by (cases cs) (auto split: option.splits)
next
  case (5 f c cs k n es)
  then show ?case by (cases cs) (auto split: option.splits)
qed

lemma lookup_alter_other_aux:
  "(\<not> prefix p q \<longrightarrow> \<not> prefix q p \<longrightarrow> lookup (alter f p r) q = lookup r q)"
  "(\<not> prefix (c # cs) (d # ds) \<longrightarrow> \<not> prefix (d # ds) (c # cs)
      \<longrightarrow> lookup_in (alter_in f c cs es) d ds = lookup_in es d ds)"
proof (induction f p r and f c cs es arbitrary: q and d ds rule: alter_alter_in.induct)
  case (1 f r)
  then show ?case by simp
next
  case (2 f c cs x)
  then show ?case by simp
next
  case (3 f c cs es)
  then show ?case by (cases q) auto
next
  case (4 f c cs)
  then show ?case by (auto split: option.splits)
next
  case (5 f c cs k n es)
  then show ?case by (auto split: option.splits)
qed

lemma leaf_fun_File: "leaf_fun f \<Longrightarrow> f x = Some n \<Longrightarrow> \<exists>y. n = File y"
  by (cases n) (auto simp: leaf_fun_def split: option.splits node.splits dest: spec[where x=x])

lemma leaf_fun_not_dir: "leaf_fun f \<Longrightarrow> \<not> opt_is_dir (f x)"
  by (cases "f x") (auto dest: leaf_fun_File)

lemma leaf_fun_const [simp]: "leaf_fun (\<lambda>_. None)" "leaf_fun (\<lambda>_. Some (File x))"
  by (simp_all add: leaf_fun_def)

lemma alter_keeps_dirs_aux:
  "(leaf_fun f \<longrightarrow> \<not> opt_is_dir (lookup r p)
      \<longrightarrow> opt_is_dir (lookup (alter f p r) q) = opt_is_dir (lookup r q))"
  "(leaf_fun f \<longrightarrow> \<not> opt_is_dir (lookup_in es c cs)
      \<longrightarrow> opt_is_dir (lookup_in (alter_in f c cs es) d ds) = opt_is_dir (lookup_in es d ds))"
proof (induction f p r and f c cs es arbitrary: q and d ds rule: alter_alter_in.induct)
  case (1 f r)
  then show ?case by simp
next
  case (2 f c cs x)
  then show ?case by simp
next
  case (3 f c cs es)
  then show ?case by (cases q) auto
next
  case (4 f c cs)
  then show ?case by (cases ds) (auto split: option.splits dest: leaf_fun_File)
next
  case (5 f c cs k n es)
  show ?case
  proof (intro impI)
    assume lf: "leaf_fun f" and nd: "\<not> opt_is_dir (lookup_in ((k, n) # es) c cs)"
    show "opt_is_dir (lookup_in (alter_in f c cs ((k, n) # es)) d ds)
            = opt_is_dir (lookup_in ((k, n) # es) d ds)"
    proof (cases "k = c")
      case False
      then show ?thesis using 5(2) lf nd by auto
    next
      case kc: True
      show ?thesis
      proof (cases "cs = []")
        case True
        with kc nd obtain x where n: "n = File x" by (cases n) auto
        from lf have fnd: "\<not> opt_is_dir (f (Some n))" by (rule leaf_fun_not_dir)
        show ?thesis using kc True n fnd
          by (cases ds; cases "d = c")
             (auto split: option.splits node.splits dest: leaf_fun_File [OF lf])
      next
        case False
        then show ?thesis using 5(1) kc lf nd by auto
      qed
    qed
  qed
qed

lemma alter_None_absent_aux:
  "(lookup r p = None \<longrightarrow> alter (\<lambda>_. None) p r = r)"
  "(lookup_in es c cs = None \<longrightarrow> alter_in (\<lambda>_. None) c cs es = es)"
proof (induction "\<lambda>_::node option. None::node option" p r
         and "\<lambda>_::node option. None::node option" c cs es rule: alter_alter_in.induct)
  case (1 r)
  then show ?case by simp
next
  case (2 c cs x)
  then show ?case by simp
next
  case (3 c cs es)
  then show ?case by simp
next
  case (4 c cs)
  then show ?case by simp
next
  case (5 c cs k n es)
  then show ?case by auto
qed

lemmas lookup_alter_same = lookup_alter_same_aux(1) [rule_format]
lemmas lookup_alter_other = lookup_alter_other_aux(1) [rule_format]
lemmas alter_keeps_dirs = alter_keeps_dirs_aux(1) [rule_format]
lemmas alter_None_absent = alter_None_absent_aux(1) [rule_format]

lemma lookup_append_aux:
  "lookup r (p @ s) = (case lookup r p of None \<Rightarrow> None | Some n \<Rightarrow> lookup n s)"
  "lookup_in es c (cs @ s) = (case lookup_in es c cs of None \<Rightarrow> None | Some n \<Rightarrow> lookup n s)"
  by (induction r p and es c cs rule: lookup_lookup_in.induct) auto

lemma lookup_below_leaf:
  "\<not> opt_is_dir (lookup r p) \<Longrightarrow> s \<noteq> [] \<Longrightarrow> lookup r (p @ s) = None"
  by (cases s; cases "lookup r p")
     (auto simp: lookup_append_aux(1) opt_is_dir_def split: node.splits)

lemma lookup_alter_not_above:
  assumes "leaf_fun f" and "\<not> opt_is_dir (lookup r p)" and "\<not> prefix q p"
  shows "lookup (alter f p r) q = lookup r q"
proof (cases "prefix p q")
  case False
  with assms(3) show ?thesis by (simp add: lookup_alter_other)
next
  case True
  then obtain s where q: "q = p @ s" by (auto simp: prefix_def)
  with assms(3) have s: "s \<noteq> []" by auto
  have "\<not> opt_is_dir (lookup (alter f p r) p)"
    using alter_keeps_dirs [OF assms(1) assms(2), of p] assms(2) by simp
  then have "lookup (alter f p r) (p @ s) = None" using s by (rule lookup_below_leaf)
  moreover have "lookup r (p @ s) = None" using assms(2) s by (rule lookup_below_leaf)
  ultimately show ?thesis by (simp add: q)
qed

lemma same_dirs_refl [simp]: "same_dirs r r"
  by (simp add: same_dirs_def)

lemma same_dirs_sym: "same_dirs r r' \<Longrightarrow> same_dirs r' r"
  unfolding same_dirs_def by blast

lemma same_dirs_trans: "same_dirs r r' \<Longrightarrow> same_dirs r' r'' \<Longrightarrow> same_dirs r r''"
  unfolding same_dirs_def by blast

lemma same_dirsD: "same_dirs r r' \<Longrightarrow> opt_is_dir (lookup r q) = opt_is_dir (lookup r' q)"
  unfolding same_dirs_def by blast

lemma same_dirs_alter:
  "leaf_fun f \<Longrightarrow> \<not> opt_is_dir (lookup r p) \<Longrightarrow> same_dirs r (alter f p r)"
  by (simp add: same_dirs_def alter_keeps_dirs)

lemma walk_Inr_dir: "walk r cur (c # cs) = Inr loc \<Longrightarrow> opt_is_dir (lookup r cur)"
  by (cases "lookup r cur") (auto split: node.splits)

lemma walk_step:
  "lookup r cur = Some (Dir es) \<Longrightarrow>
   walk r cur (c # cs) =
     (if c = [] \<or> c = ''.'' then walk r cur cs
      else if c = ''..'' then walk r (butlast cur) cs
      else walk r (cur @ [c]) cs)"
  by simp

lemma walk_same_dirs:
  "same_dirs r r' \<Longrightarrow> walk r cur cs = Inr loc \<Longrightarrow> walk r' cur cs = Inr loc"
proof (induction cs arbitrary: cur)
  case Nil
  then show ?case by simp
next
  case (Cons c cs)
  from Cons.prems(2) have d: "opt_is_dir (lookup r cur)" by (rule walk_Inr_dir)
  then have d': "opt_is_dir (lookup r' cur)" using same_dirsD [OF Cons.prems(1), of cur] by simp
  from d obtain es where es: "lookup r cur = Some (Dir es)" by (blast dest: opt_is_dirE)
  from d' obtain es' where es': "lookup r' cur = Some (Dir es')" by (blast dest: opt_is_dirE)
  show ?case
    using Cons.prems(2) Cons.IH [OF Cons.prems(1)]
    unfolding walk_step [OF es] walk_step [OF es']
    by (auto split: if_splits)
qed

subsection \<open>\<open>make_tar\<close> in a job directory\<close>

lemma proper_tar: "proper_name J \<Longrightarrow> proper_name (J @ ''.tar.gz'')"
  by (cases J) (auto simp: proper_name_def slash_def)

lemma locate_proper2:
  assumes "proper_name J" "proper_name n" "opt_is_dir (lookup (root st) (cwd st))"
    "opt_is_dir (lookup (root st) (cwd st @ [J]))"
  shows "locate st (os_path_join J n) = Inr (cwd st @ [J, n])"
proof -
  from assms(1) have J: "J \<noteq> []" "slash \<notin> set J" by (auto simp: proper_name_def)
  from assms(2) have n: "n \<noteq> []" "slash \<notin> set n" by (auto simp: proper_name_def)
  have lj: "last J \<noteq> slash" using assms(1) proper_name_last by blast
  have "\<not> startswith n [slash]" using not_startswith_slash [OF n, of "[]"] by simp
  moreover have "\<not> endswith J [slash]" using lj J(1)
    by (cases J rule: rev_cases) (auto simp: endswith_def)
  ultimately have j: "os_path_join J n = J @ slash # n" using J(1) by (simp add: os_path_join_def)
  have sp: "split_on slash (J @ slash # n) = [J, n]"
    using J(2) n(2) by (simp add: split_on_append split_on_notin)
  have st: "\<not> startswith (J @ slash # n) [slash]" using J by (rule not_startswith_slash)
  have "walk (root st) (cwd st) [J, n] = Inr (cwd st @ [J, n])"
    using walk_proper_step [OF assms(1) assms(3), of "[n]"]
          walk_proper_step [OF assms(2) assms(4), of "[]"]
    by (simp del: walk.simps(2))
  then show ?thesis using st by (simp add: j locate_def sp)
qed

lemma join_proper: "proper_name J \<Longrightarrow> proper_name n \<Longrightarrow> os_path_join J n = J @ slash # n"
proof -
  assume a: "proper_name J" "proper_name n"
  from a(1) have J: "J \<noteq> []" "slash \<notin> set J" by (auto simp: proper_name_def)
  from a(2) have n: "n \<noteq> []" "slash \<notin> set n" by (auto simp: proper_name_def)
  have lj: "last J \<noteq> slash" using a(1) proper_name_last by blast
  have "\<not> startswith n [slash]" using not_startswith_slash [OF n, of "[]"] by simp
  moreover have "\<not> endswith J [slash]" using lj J(1)
    by (cases J rule: rev_cases) (auto simp: endswith_def)
  ultimately show "os_path_join J n = J @ slash # n" using J(1) by (simp add: os_path_join_def)
qed

lemma basename_proper: "proper_name n \<Longrightarrow> os_path_basename n = n"
proof -
  assume "proper_name n"
  then have "\<forall>c\<in>set (rev n). c \<noteq> slash" by (auto simp: proper_name_def)
  then have "takeWhile (\<lambda>c. c \<noteq> slash) (rev n) = rev n"
    by (metis (mono_tags, lifting) takeWhile_eq_all_conv)
  then show ?thesis unfolding os_path_basename_def by (simp only: rev_rev_ident)
qed

lemma stat_proper:
  "proper_name n \<Longrightarrow> opt_is_dir (lookup (root w) (cwd w)) \<Longrightarrow>
   stat w n = lookup (root w) (cwd w @ [n])"
  by (simp add: stat_def locate_proper)

lemma stat_proper2:
  "proper_name J \<Longrightarrow> proper_name n \<Longrightarrow> opt_is_dir (lookup (root w) (cwd w)) \<Longrightarrow>
   opt_is_dir (lookup (root w) (cwd w @ [J])) \<Longrightarrow>
   stat w (os_path_join J n) = lookup (root w) (cwd w @ [J, n])"
  by (simp add: stat_def locate_proper2)

lemma exists_proper:
  "proper_name n \<Longrightarrow> opt_is_dir (lookup (root w) (cwd w)) \<Longrightarrow>
   os_path_exists w n = (lookup (root w) (cwd w @ [n]) \<noteq> None)"
  by (simp add: os_path_exists_def stat_proper)

lemma isdir_proper:
  "proper_name n \<Longrightarrow> opt_is_dir (lookup (root w) (cwd w)) \<Longrightarrow>
   os_path_isdir w n = opt_is_dir (lookup (root w) (cwd w @ [n]))"
  by (simp add: os_path_isdir_def stat_proper opt_is_dir_def split: option.splits node.splits)

lemma remove_proper:
  "proper_name n \<Longrightarrow> opt_is_dir (lookup (root w) (cwd w)) \<Longrightarrow>
   os_remove n w =
     (case lookup (root w) (cwd w @ [n]) of
        None \<Rightarrow> (w, Inl FileNotFoundError)
      | Some (Dir es) \<Rightarrow> (w, Inl IsADirectoryError)
      | Some (File x) \<Rightarrow> (w\<lparr>root := alter (\<lambda>_. None) (cwd w @ [n]) (root w)\<rparr>, Inr ()))"
  by (simp add: os_remove_def locate_proper)

lemma open_xb_proper:
  "proper_name n \<Longrightarrow> opt_is_dir (lookup (root w) (cwd w)) \<Longrightarrow>
   open_xb n x w =
     (case lookup (root w) (cwd w @ [n]) of
        Some y \<Rightarrow> (w, Inl FileExistsError)
      | None \<Rightarrow> (w\<lparr>root := alter (\<lambda>_. Some (File x)) (cwd w @ [n]) (root w)\<rparr>, Inr (cwd w @ [n])))"
  by (simp add: open_xb_def locate_proper)

lemma open_rb_proper:
  "proper_name n \<Longrightarrow> opt_is_dir (lookup (root w) (cwd w)) \<Longrightarrow>
   open_rb w n =
     (case lookup (root w) (cwd w @ [n]) of
        None \<Rightarrow> Inl FileNotFoundError
      | Some (Dir es) \<Rightarrow> Inl IsADirectoryError
      | Some (File x) \<Rightarrow> Inr x)"
  by (simp add: open_rb_def locate_proper)

lemma open_wb_proper2:
  "proper_name J \<Longrightarrow> proper_name n \<Longrightarrow> opt_is_dir (lookup (root w) (cwd w)) \<Longrightarrow>
   opt_is_dir (lookup (root w) (cwd w @ [J])) \<Longrightarrow>
   open_wb (os_path_join J n) x w =
     (if opt_is_dir (lookup (root w) (cwd w @ [J, n])) then (w, Inl IsADirectoryError)
      else (w\<lparr>root := alter (\<lambda>_. Some (File x)) (cwd w @ [J, n]) (root w)\<rparr>, Inr ()))"
  by (simp add: open_wb_def locate_proper2 opt_is_dir_def split: option.splits node.splits)

lemma samefile_proper:
  "proper_name J \<Longrightarrow> proper_name n \<Longrightarrow> opt_is_dir (lookup (root w) (cwd w)) \<Longrightarrow>
   opt_is_dir (lookup (root w) (cwd w @ [J])) \<Longrightarrow>
   samefile w n (os_path_join J n) = False"
  by (simp add: samefile_def locate_proper locate_proper2)

lemma shutil_copy_proper:
  assumes "proper_name J" "proper_name n" "opt_is_dir (lookup (root w) (cwd w))"
    "opt_is_dir (lookup (root w) (cwd w @ [J]))"
  shows "shutil_copy n J w =
     (case lookup (root w) (cwd w @ [n]) of
        None \<Rightarrow> (w, Inl FileNotFoundError)
      | Some (Dir es) \<Rightarrow> (w, Inl IsADirectoryError)
      | Some (File x) \<Rightarrow>
          if opt_is_dir (lookup (root w) (cwd w @ [J, n])) then (w, Inl IsADirectoryError)
          else (w\<lparr>root := alter (\<lambda>_. Some (File x)) (cwd w @ [J, n]) (root w)\<rparr>,
                Inr (os_path_join J n)))"
  using assms
  by (simp add: shutil_copy_def Let_def isdir_proper basename_proper samefile_proper
        open_rb_proper open_wb_proper2 split: option.splits node.splits)

lemma log_info_fields [simp]:
  "root (log_info a w) = root w" "cwd (log_info a w) = cwd w" "s3_objects (log_info a w) = s3_objects w"
  by (simp_all add: log_info_def)

lemma log_info_root_upd: "(log_info a w)\<lparr>root := r\<rparr> = log_info a (w\<lparr>root := r\<rparr>)"
  by (simp add: log_info_def)

lemma abspath_cong: "cwd w' = cwd w \<Longrightarrow> os_path_abspath w' p = os_path_abspath w p"
  by (simp add: os_path_abspath_def os_getcwd_def)

lemma locate_cong: "root w' = root w \<Longrightarrow> cwd w' = cwd w \<Longrightarrow> locate w' p = locate w p"
  by (simp add: locate_def)

lemma add_node_cong:
  "cwd w' = cwd w \<Longrightarrow> add_node w' self nm arc n = add_node w self nm arc n"
proof (induction w self nm arc n rule: add_node.induct)
  case (1 st selfname nm arcname x)
  then show ?case by (simp add: abspath_cong [of w' st])
next
  case (2 st selfname nm arcname es)
  show ?case
  proof (cases "os_path_abspath st nm = selfname")
    case True
    then show ?thesis using 2(2) by (simp add: abspath_cong [of w' st])
  next
    case False
    have "map (\<lambda>e. add_node w' selfname (os_path_join nm (fst e)) (os_path_join arcname (fst e)) (snd e))
              (sort_key fst es)
          = map (\<lambda>e. add_node st selfname (os_path_join nm (fst e)) (os_path_join arcname (fst e)) (snd e))
              (sort_key fst es)"
      using 2(1) [OF False] 2(2) by (intro map_cong) auto
    then have c: "concat (map (\<lambda>e. add_node w' selfname (os_path_join nm (fst e)) (os_path_join arcname (fst e)) (snd e))
              (sort_key fst es))
          = concat (map (\<lambda>e. add_node st selfname (os_path_join nm (fst e)) (os_path_join arcname (fst e)) (snd e))
              (sort_key fst es))"
      by (rule arg_cong)
    have a: "os_path_abspath w' nm = os_path_abspath st nm" using 2(2) by (rule abspath_cong)
    show ?thesis unfolding add_node.simps a c ..
  qed
qed

lemma tar_add_cong:
  "root w' = root w \<Longrightarrow> cwd w' = cwd w \<Longrightarrow> tar_add w' self f = tar_add w self f"
  by (simp add: tar_add_def abspath_cong [of w' w] locate_cong [of w' w] add_node_cong [of w' w]
           cong: sum.case_cong option.case_cong)

lemma tar_add_all_cong:
  "root w' = root w \<Longrightarrow> cwd w' = cwd w \<Longrightarrow> tar_add_all w' self fs acc = tar_add_all w self fs acc"
  by (induction fs arbitrary: acc) (simp_all add: tar_add_cong [of w' w] split: sum.splits)

lemma tar_dest_incomparable:
  "\<not> prefix (tar_loc C J) (dest_loc C J)" "\<not> prefix (dest_loc C J) (tar_loc C J)"
  by (auto simp: tar_loc_def dest_loc_def)

lemma butlast_locs [simp]:
  "butlast (tar_loc C J) = C" "butlast (dest_loc C J) = C @ [J]"
  "tar_loc C J \<noteq> []" "dest_loc C J \<noteq> []"
  by (simp_all add: tar_loc_def dest_loc_def butlast_append)

text \<open>Facts about the roots through which a successful call passes.\<close>

lemma roots_facts:
  fixes M :: "string list"
  assumes C: "opt_is_dir (lookup r C)" and CJ: "opt_is_dir (lookup r (C @ [J]))"
    and T: "\<not> opt_is_dir (lookup r (tar_loc C J))"
    and D: "\<not> opt_is_dir (lookup r (dest_loc C J))"
  defines "r1 \<equiv> alter (\<lambda>_. None) (tar_loc C J) r"
  defines "r3 \<equiv> opened_root C J r"
  defines "r4 \<equiv> alter (\<lambda>_. Some (File (Archive M))) (tar_loc C J) r3"
  defines "r6 \<equiv> alter (\<lambda>_. Some (File (Archive M))) (dest_loc C J) r4"
  defines "r7 \<equiv> made_root C J M r"
  shows "same_dirs r r1" "same_dirs r r3" "same_dirs r r4" "same_dirs r r6" "same_dirs r r7"
    "lookup r1 (tar_loc C J) = None"
    "lookup r3 (tar_loc C J) = Some (File (Archive []))"
    "lookup r4 (tar_loc C J) = Some (File (Archive M))"
    "lookup r4 (dest_loc C J) = lookup r (dest_loc C J)"
    "lookup r6 (tar_loc C J) = Some (File (Archive M))"
    "lookup r6 (dest_loc C J) = Some (File (Archive M))"
    "lookup r7 (tar_loc C J) = None"
    "lookup r7 (dest_loc C J) = Some (File (Archive M))"
proof -
  note inc = tar_dest_incomparable [of C J]
  show s1: "same_dirs r r1" unfolding r1_def using T by (intro same_dirs_alter) simp_all
  have C1: "opt_is_dir (lookup r1 C)" using same_dirsD [OF s1, of C] C by simp
  show l1: "lookup r1 (tar_loc C J) = None"
    unfolding r1_def using C by (subst lookup_alter_same) simp_all
  have r3: "r3 = alter (\<lambda>_. Some (File (Archive []))) (tar_loc C J) r1"
    by (simp add: r3_def r1_def opened_root_def)
  have s13: "same_dirs r1 r3" unfolding r3 using l1 by (intro same_dirs_alter) simp_all
  show s3: "same_dirs r r3" using s1 s13 by (rule same_dirs_trans)
  have C3: "opt_is_dir (lookup r3 C)" using same_dirsD [OF s3, of C] C by simp
  show l3: "lookup r3 (tar_loc C J) = Some (File (Archive []))"
    unfolding r3 using C1 by (subst lookup_alter_same) simp_all
  have s34: "same_dirs r3 r4" unfolding r4_def using l3 by (intro same_dirs_alter) simp_all
  show s4: "same_dirs r r4" using s3 s34 by (rule same_dirs_trans)
  show l4: "lookup r4 (tar_loc C J) = Some (File (Archive M))"
    unfolding r4_def using C3 by (subst lookup_alter_same) simp_all
  show d4: "lookup r4 (dest_loc C J) = lookup r (dest_loc C J)"
    unfolding r4_def r3 r1_def using inc by (simp add: lookup_alter_other)
  have D4: "\<not> opt_is_dir (lookup r4 (dest_loc C J))" using d4 D by simp
  have CJ4: "opt_is_dir (lookup r4 (C @ [J]))" using same_dirsD [OF s4, of "C @ [J]"] CJ by simp
  have s46: "same_dirs r4 r6" unfolding r6_def using D4 by (intro same_dirs_alter) simp_all
  show s6: "same_dirs r r6" using s4 s46 by (rule same_dirs_trans)
  show l6: "lookup r6 (tar_loc C J) = Some (File (Archive M))"
    unfolding r6_def using inc l4 by (simp add: lookup_alter_other)
  show d6: "lookup r6 (dest_loc C J) = Some (File (Archive M))"
    unfolding r6_def using CJ4 by (subst lookup_alter_same) simp_all
  have r7: "r7 = alter (\<lambda>_. None) (tar_loc C J) r6"
    by (simp add: r7_def made_root_def r6_def r4_def r3_def)
  have s67: "same_dirs r6 r7" unfolding r7 using l6 by (intro same_dirs_alter) simp_all
  show s7: "same_dirs r r7" using s6 s67 by (rule same_dirs_trans)
  have C6: "opt_is_dir (lookup r6 C)" using same_dirsD [OF s6, of C] C by simp
  show "lookup r7 (tar_loc C J) = None"
    unfolding r7 using C6 by (subst lookup_alter_same) simp_all
  show "lookup r7 (dest_loc C J) = Some (File (Archive M))"
    unfolding r7 using inc d6 by (simp add: lookup_alter_other)
qed

lemma make_tar_success_iff:
  assumes J: "proper_name J"
    and C: "opt_is_dir (lookup (root st) (cwd st))"
    and CJ: "opt_is_dir (lookup (root st) (cwd st @ [J]))"
  shows "make_tar fs J st = (st', Inr p) \<longleftrightarrow>
     \<not> opt_is_dir (lookup (root st) (tar_loc (cwd st) J))
     \<and> \<not> opt_is_dir (lookup (root st) (dest_loc (cwd st) J))
     \<and> (\<exists>M. tar_add_all (st\<lparr>root := opened_root (cwd st) J (root st)\<rparr>)
               (os_path_abspath st (J @ ''.tar.gz'')) fs [] = (M, None)
            \<and> st' = (tar_logged J st)\<lparr>root := made_root (cwd st) J M (root st)\<rparr>
            \<and> p = os_path_join J (J @ ''.tar.gz''))"
proof -
  define tar where "tar = J @ ''.tar.gz''"
  define r where "r = root st"
  define Cw where "Cw = cwd st"
  define T where "T = tar_loc Cw J"
  define D where "D = dest_loc Cw J"
  define w1 where "w1 = log_info [PStr ''Creating tarfile: '', PStr tar] st"
  have tp: "proper_name tar" unfolding tar_def using J by (rule proper_tar)
  have w1: "root w1 = r" "cwd w1 = Cw" by (simp_all add: w1_def r_def Cw_def)
  have Cr: "opt_is_dir (lookup r Cw)" and CJr: "opt_is_dir (lookup r (Cw @ [J]))"
    using C CJ by (simp_all add: r_def Cw_def)
  have Tl: "T = Cw @ [tar]" and Dl: "D = Cw @ [J, tar]"
    by (simp_all add: T_def D_def tar_loc_def dest_loc_def tar_def)
  define r1 where "r1 = alter (\<lambda>_. None) T r"
  define step1 where
    "step1 = (if os_path_exists w1 tar then os_remove tar w1 else (w1, Inr ()))"
  have step1_dir: "step1 = (w1, Inl IsADirectoryError)" if "opt_is_dir (lookup r T)"
  proof -
    from that obtain es where "lookup r T = Some (Dir es)" by (blast dest: opt_is_dirE)
    then show ?thesis
      using tp Cr by (simp add: step1_def exists_proper remove_proper w1 Tl)
  qed
  have step1_ok: "step1 = (w1\<lparr>root := r1\<rparr>, Inr ())" if "\<not> opt_is_dir (lookup r T)"
  proof (cases "lookup r T")
    case None
    then have "r1 = r" unfolding r1_def by (rule alter_None_absent)
    then have "w1\<lparr>root := r1\<rparr> = w1" using w1(1) by simp
    then show ?thesis using None tp Cr by (simp add: step1_def exists_proper w1 Tl)
  next
    case (Some n)
    with that obtain x where "n = File x" by (cases n) auto
    with Some show ?thesis
      using tp Cr by (simp add: step1_def exists_proper remove_proper w1 Tl r1_def)
  qed
  have mt: "make_tar fs J st =
     (case step1 of
           (st2, Inl e) \<Rightarrow> (st2, Inl e)
         | (st2, Inr u) \<Rightarrow>
             (case open_xb tar (Archive []) st2 of
                (st3, Inl e) \<Rightarrow> (st3, Inl e)
              | (st3, Inr loc) \<Rightarrow>
                  (case tar_add_all st3 (os_path_abspath st3 tar) fs [] of
                     (members, Some e) \<Rightarrow> (write_at loc (Archive members) st3, Inl e)
                   | (members, None) \<Rightarrow>
                       let st4 = write_at loc (Archive members) st3;
                           st5 = log_info [PStr ''Tar successful: '', PStr tar] st4;
                           tar_dest = os_path_join J tar
                       in case shutil_copy tar J st5 of
                            (st6, Inl e) \<Rightarrow> (st6, Inl e)
                          | (st6, Inr d) \<Rightarrow>
                              (case os_remove tar st6 of
                                 (st7, Inl e) \<Rightarrow> (st7, Inl e)
                               | (st7, Inr u') \<Rightarrow> (st7, Inr tar_dest)))))"
    unfolding make_tar_def Let_def step1_def w1_def tar_def ..
  show ?thesis
  proof (cases "opt_is_dir (lookup r T)")
    case True
    then show ?thesis unfolding mt step1_dir [OF True]
      by (simp add: r_def T_def Cw_def)
  next
    case nT: False
    note s1 = step1_ok [OF nT]
    define w2 where "w2 = w1\<lparr>root := r1\<rparr>"
    define r3 where "r3 = opened_root Cw J r"
    define w3 where "w3 = w1\<lparr>root := r3\<rparr>"
    have r3: "r3 = alter (\<lambda>_. Some (File (Archive []))) T r1"
      by (simp add: r3_def opened_root_def r1_def T_def)
    show ?thesis
    proof (cases "opt_is_dir (lookup r D)")
      case nD: False
      note rf = roots_facts [OF Cr CJr nT [unfolded T_def] nD [unfolded D_def]]
      have l1: "lookup r1 T = None" using rf(6) by (simp add: r1_def T_def)
      have C1: "opt_is_dir (lookup r1 Cw)"
        using same_dirsD [OF rf(1), of Cw] Cr by (simp add: r1_def T_def)
      have op: "open_xb tar (Archive []) w2 = (w3, Inr T)"
        using tp C1 l1 by (simp add: open_xb_proper w2_def w1 Tl [symmetric] w3_def r3)
      have ab: "os_path_abspath w3 tar = os_path_abspath st (J @ ''.tar.gz'')"
        unfolding tar_def by (rule abspath_cong) (simp add: w3_def w1 Cw_def)
      have ta: "tar_add_all w3 (os_path_abspath w3 tar) fs [] =
                tar_add_all (st\<lparr>root := opened_root (cwd st) J (root st)\<rparr>)
                  (os_path_abspath st (J @ ''.tar.gz'')) fs []"
        unfolding ab by (rule tar_add_all_cong) (simp_all add: w3_def w1 r3_def Cw_def r_def)
      obtain M eo where res: "tar_add_all (st\<lparr>root := opened_root (cwd st) J (root st)\<rparr>)
                  (os_path_abspath st (J @ ''.tar.gz'')) fs [] = (M, eo)"
        by (cases "tar_add_all (st\<lparr>root := opened_root (cwd st) J (root st)\<rparr>)
                  (os_path_abspath st (J @ ''.tar.gz'')) fs []") auto
      show ?thesis
      proof (cases eo)
        case (Some e)
        have res': "tar_add_all w3 (os_path_abspath w3 tar) fs [] = (M, Some e)"
          using ta res Some by simp
        have "make_tar fs J st = (write_at T (Archive M) w3, Inl e)"
          unfolding mt s1 by (simp add: op [unfolded w2_def] res')
        then show ?thesis using res Some by simp
      next
        case None
        note hyps = Cr CJr nT [unfolded T_def] nD [unfolded D_def]
        note rf3 = roots_facts(3) [where M = M, OF hyps]
        note rf4 = roots_facts(4) [where M = M, OF hyps]
        note rf8 = roots_facts(8) [where M = M, OF hyps]
        note rf9 = roots_facts(9) [where M = M, OF hyps]
        note rf10 = roots_facts(10) [where M = M, OF hyps]
        define r4 where "r4 = alter (\<lambda>_. Some (File (Archive M))) T r3"
        define r6 where "r6 = alter (\<lambda>_. Some (File (Archive M))) D r4"
        define r7 where "r7 = made_root Cw J M r"
        define w5 where "w5 = log_info [PStr ''Tar successful: '', PStr tar] (w1\<lparr>root := r4\<rparr>)"
        have w4: "log_info [PStr ''Tar successful: '', PStr tar] (write_at T (Archive M) w3) = w5"
          by (simp add: write_at_def w3_def w5_def r4_def)
        have w5: "root w5 = r4" "cwd w5 = Cw" by (simp_all add: w5_def w1)
        have C4: "opt_is_dir (lookup r4 Cw)" "opt_is_dir (lookup r4 (Cw @ [J]))"
          using same_dirsD [OF rf3, of Cw] same_dirsD [OF rf3, of "Cw @ [J]"] Cr CJr
          by (simp_all add: r4_def r3_def T_def)
        have l4: "lookup r4 (Cw @ [tar]) = Some (File (Archive M))"
          using rf8 by (simp add: r4_def r3_def T_def Tl [symmetric])
        have d4: "\<not> opt_is_dir (lookup r4 (Cw @ [J, tar]))"
          using rf9 nD by (simp add: r4_def r3_def T_def D_def Dl [symmetric])
        have cp: "shutil_copy tar J w5 = (w5\<lparr>root := r6\<rparr>, Inr (os_path_join J tar))"
          using shutil_copy_proper [OF J tp, of w5] C4 l4 d4
          by (simp add: w5 r6_def Dl)
        have C6: "opt_is_dir (lookup r6 Cw)"
          using same_dirsD [OF rf4, of Cw] Cr by (simp add: r6_def r4_def r3_def T_def D_def)
        have l6: "lookup r6 (Cw @ [tar]) = Some (File (Archive M))"
          using rf10 by (simp add: r6_def r4_def r3_def T_def D_def Tl [symmetric])
        have r7: "r7 = alter (\<lambda>_. None) (Cw @ [tar]) r6"
          by (simp add: r7_def made_root_def r6_def r4_def r3_def T_def D_def Tl [symmetric])
        have rm: "os_remove tar (w5\<lparr>root := r6\<rparr>) = (w5\<lparr>root := r7\<rparr>, Inr ())"
          using tp C6 l6 by (simp add: remove_proper w5 r7)
        have fin: "w5\<lparr>root := r7\<rparr> = (tar_logged J st)\<lparr>root := made_root (cwd st) J M (root st)\<rparr>"
          by (simp add: w5_def w1_def tar_logged_def r7_def log_info_def tar_def Cw_def r_def)
        have res': "tar_add_all w3 (os_path_abspath w3 tar) fs [] = (M, None)"
          using ta res None by simp
        have "make_tar fs J st = (w5\<lparr>root := r7\<rparr>, Inr (os_path_join J tar))"
          unfolding mt s1 by (simp add: op [unfolded w2_def] res' w4 cp rm Let_def)
        then show ?thesis using res None nT nD
          by (auto simp: fin tar_def r_def T_def D_def Cw_def)
      qed
    next
      case yD: True
      have C1: "opt_is_dir (lookup r1 Cw)"
        using alter_keeps_dirs [of "\<lambda>_. None" r T Cw] nT Cr by (simp add: r1_def)
      have l1: "lookup r1 T = None"
        unfolding r1_def using Cr by (subst lookup_alter_same) (simp_all add: Tl butlast_append)
      have op: "open_xb tar (Archive []) w2 = (w3, Inr T)"
        using tp C1 l1 by (simp add: open_xb_proper w2_def w1 Tl [symmetric] w3_def r3)
      obtain M eo where res: "tar_add_all w3 (os_path_abspath w3 tar) fs [] = (M, eo)"
        by (cases "tar_add_all w3 (os_path_abspath w3 tar) fs []") auto
      have inc: "\<not> prefix T D" "\<not> prefix D T" by (auto simp: Tl Dl tar_def)
      show ?thesis
      proof (cases eo)
        case (Some e)
        have "make_tar fs J st = (write_at T (Archive M) w3, Inl e)"
          unfolding mt s1 using res Some by (simp add: op [unfolded w2_def])
        then show ?thesis using yD by (simp add: r_def D_def Cw_def)
      next
        case None
        define r4 where "r4 = alter (\<lambda>_. Some (File (Archive M))) T r3"
        define w5 where "w5 = log_info [PStr ''Tar successful: '', PStr tar] (w1\<lparr>root := r4\<rparr>)"
        have w4: "log_info [PStr ''Tar successful: '', PStr tar] (write_at T (Archive M) w3) = w5"
          by (simp add: write_at_def w3_def w5_def r4_def)
        have w5: "root w5 = r4" "cwd w5 = Cw" by (simp_all add: w5_def w1)
        have l3: "lookup r3 T = Some (File (Archive []))"
          unfolding r3 using C1 by (subst lookup_alter_same) (simp_all add: Tl butlast_append)
        have s: "same_dirs r r4"
          unfolding r4_def r3 r1_def
          by (intro same_dirs_trans [OF same_dirs_alter [of "\<lambda>_. None" r T]]
                    same_dirs_trans [OF same_dirs_alter [of "\<lambda>_. Some (File (Archive []))" r1 T, unfolded r1_def]]
                    same_dirs_alter)
             (use nT l1 l3 in \<open>simp_all add: r1_def r3\<close>)
        have C4: "opt_is_dir (lookup r4 Cw)" "opt_is_dir (lookup r4 (Cw @ [J]))"
          using same_dirsD [OF s, of Cw] same_dirsD [OF s, of "Cw @ [J]"] Cr CJr by simp_all
        have l4: "lookup r4 (Cw @ [tar]) = Some (File (Archive M))"
          unfolding r4_def Tl [symmetric] using same_dirsD [OF s, of Cw] Cr C1
            alter_keeps_dirs [of "\<lambda>_. Some (File (Archive []))" r1 T Cw] l1
          by (subst lookup_alter_same) (simp_all add: Tl butlast_append r3)
        have d4: "opt_is_dir (lookup r4 (Cw @ [J, tar]))"
          using same_dirsD [OF s, of D] yD by (simp add: Dl)
        have cp: "shutil_copy tar J w5 = (w5, Inl IsADirectoryError)"
          using shutil_copy_proper [OF J tp, of w5] C4 l4 d4
          by (simp add: w5)
        have "make_tar fs J st = (w5, Inl IsADirectoryError)"
          unfolding mt s1 using res None by (simp add: op [unfolded w2_def] w4 cp Let_def)
        then show ?thesis using yD by (simp add: r_def D_def Cw_def)
      qed
    qed
  qed
qed

lemma lookup_opened_other:
  assumes C: "opt_is_dir (lookup r C)" and T: "\<not> opt_is_dir (lookup r (tar_loc C J))"
    and q: "\<not> prefix q (tar_loc C J)"
  shows "lookup (opened_root C J r) q = lookup r q"
proof -
  have l1: "lookup (alter (\<lambda>_. None) (tar_loc C J) r) (tar_loc C J) = None"
    using C by (subst lookup_alter_same) simp_all
  have "lookup (opened_root C J r) q = lookup (alter (\<lambda>_. None) (tar_loc C J) r) q"
    unfolding opened_root_def using l1 q by (intro lookup_alter_not_above) simp_all
  also have "\<dots> = lookup r q" using T q by (intro lookup_alter_not_above) simp_all
  finally show ?thesis .
qed

lemma lookup_made_other:
  fixes M :: "string list"
  assumes C: "opt_is_dir (lookup r C)" and CJ: "opt_is_dir (lookup r (C @ [J]))"
    and T: "\<not> opt_is_dir (lookup r (tar_loc C J))"
    and D: "\<not> opt_is_dir (lookup r (dest_loc C J))"
    and qT: "\<not> prefix q (tar_loc C J)" and qD: "\<not> prefix q (dest_loc C J)"
  shows "lookup (made_root C J M r) q = lookup (opened_root C J r) q"
proof -
  note h = C CJ T D
  let ?r3 = "opened_root C J r"
  let ?r4 = "alter (\<lambda>_. Some (File (Archive M))) (tar_loc C J) ?r3"
  let ?r6 = "alter (\<lambda>_. Some (File (Archive M))) (dest_loc C J) ?r4"
  have n3: "\<not> opt_is_dir (lookup ?r3 (tar_loc C J))" using roots_facts(7) [OF h] by simp
  have n4: "\<not> opt_is_dir (lookup ?r4 (dest_loc C J))"
    using roots_facts(9) [where M = M, OF h] D by simp
  have n6: "\<not> opt_is_dir (lookup ?r6 (tar_loc C J))"
    using roots_facts(10) [where M = M, OF h] by simp
  have "lookup (made_root C J M r) q = lookup ?r6 q"
    unfolding made_root_def using n6 qT by (intro lookup_alter_not_above) simp_all
  also have "\<dots> = lookup ?r4 q" using n4 qD by (intro lookup_alter_not_above) simp_all
  also have "\<dots> = lookup ?r3 q" using n3 qT by (intro lookup_alter_not_above) simp_all
  finally show ?thesis .
qed

lemma locate_same_dirs:
  "same_dirs (root w) (root w') \<Longrightarrow> cwd w' = cwd w \<Longrightarrow> locate w p = Inr loc
     \<Longrightarrow> locate w' p = Inr loc"
  by (auto simp: locate_def split: if_splits dest: walk_same_dirs)

lemma add_node_File: "add_node w self nm arc (File x) = add_node w self nm arc (File y)"
  by simp

lemma tar_add_all_stable:
  assumes "\<And>f ms. f \<in> set fs \<Longrightarrow> tar_add w self f = Inr ms \<Longrightarrow> tar_add w' self f = Inr ms"
    and "tar_add_all w self fs acc = (M, None)"
  shows "tar_add_all w' self fs acc = (M, None)"
  using assms
proof (induction fs arbitrary: acc)
  case Nil
  then show ?case by simp
next
  case (Cons f fs)
  from Cons.prems(2) obtain ms where ms: "tar_add w self f = Inr ms"
    and rest: "tar_add_all w self fs (acc @ ms) = (M, None)"
    by (cases "tar_add w self f") auto
  from Cons.prems(1) [OF _ ms] have ms': "tar_add w' self f = Inr ms" by simp
  have "tar_add_all w' self fs (acc @ ms) = (M, None)"
    using Cons.prems(1) rest by (intro Cons.IH) auto
  with ms' show ?case by simp
qed

lemma tar_add_second:
  fixes M :: "string list"
  assumes C: "opt_is_dir (lookup r C)" and CJ: "opt_is_dir (lookup r (C @ [J]))"
    and T: "\<not> opt_is_dir (lookup r (tar_loc C J))"
    and D: "\<not> opt_is_dir (lookup r (dest_loc C J))"
    and w: "root w = opened_root C J r" "cwd w = C"
    and w': "root w' = opened_root C J (made_root C J M r)" "cwd w' = C"
    and st: "root st = r" "cwd st = C"
    and na: "not_above_archive st J f"
    and add: "tar_add w self f = Inr ms"
  shows "tar_add w' self f = Inr ms"
proof (cases "os_path_abspath w f = self")
  case True
  then have "os_path_abspath w' f = self" using abspath_cong [of w' w f] w w' by simp
  with True add show ?thesis by (simp add: tar_add_def)
next
  case False
  then have ne': "os_path_abspath w' f \<noteq> self" using abspath_cong [of w' w f] w w' by simp
  note h = C CJ T D
  let ?r7 = "made_root C J M r"
  have s3: "same_dirs r (root w)" using roots_facts(2) [OF h] w by simp
  have s7: "same_dirs r ?r7" by (rule roots_facts(5) [OF h])
  have C7: "opt_is_dir (lookup ?r7 C)" "opt_is_dir (lookup ?r7 (C @ [J]))"
    using same_dirsD [OF s7] C CJ by simp_all
  have T7: "lookup ?r7 (tar_loc C J) = None" by (rule roots_facts(12) [OF h])
  have D7: "lookup ?r7 (dest_loc C J) = Some (File (Archive M))" by (rule roots_facts(13) [OF h])
  have nT7: "\<not> opt_is_dir (lookup ?r7 (tar_loc C J))" using T7 by simp
  have nD7: "\<not> opt_is_dir (lookup ?r7 (dest_loc C J))" using D7 by simp
  note h7 = C7 nT7 nD7
  have s37: "same_dirs ?r7 (root w')" using roots_facts(2) [OF h7] w' by simp
  have ss: "same_dirs (root w) (root w')"
    using same_dirs_trans [OF same_dirs_sym [OF s3] same_dirs_trans [OF s7 s37]] .
  from add False obtain loc n where loc: "locate w f = Inr loc"
    and n: "lookup (root w) loc = Some n" and ms: "ms = add_node w self f f n"
    by (auto simp: tar_add_def split: sum.splits option.splits)
  have "cwd w' = cwd w" by (simp add: w w')
  with ss have loc': "locate w' f = Inr loc" using loc by (rule locate_same_dirs)
  have "same_dirs (root w) (root st)" using same_dirs_sym [OF s3] by (simp add: st)
  moreover have "cwd st = cwd w" by (simp add: st w)
  ultimately have "locate st f = Inr loc" using loc by (rule locate_same_dirs)
  with na have nsp: "\<not> strict_prefix loc (dest_loc C J)"
    by (simp add: not_above_archive_def st)
  have inc: "\<not> prefix (tar_loc C J) (dest_loc C J)" by (rule tar_dest_incomparable)
  have "\<exists>n'. lookup (root w') loc = Some n' \<and> add_node w self f f n' = add_node w self f f n"
  proof (cases "loc = tar_loc C J")
    case True
    have "lookup (root w) loc = Some (File (Archive []))"
      using roots_facts(7) [OF h] by (simp add: True w)
    moreover have "lookup (root w') loc = Some (File (Archive []))"
      using roots_facts(7) [OF h7] by (simp add: True w')
    ultimately show ?thesis using n by simp
  next
    case nT': False
    show ?thesis
    proof (cases "loc = dest_loc C J")
      case True
      have "lookup (root w) loc = lookup r (dest_loc C J)"
        using lookup_opened_other [OF C T, of "dest_loc C J"] tar_dest_incomparable(2) [of C J]
        by (simp add: True w)
      with n D obtain x where x: "n = File x" by (cases n) auto
      have "lookup (root w') loc = Some (File (Archive M))"
        using lookup_opened_other [OF C7(1) nT7, of "dest_loc C J"]
              tar_dest_incomparable(2) [of C J] D7
        by (simp add: True w')
      then show ?thesis by (simp add: x)
    next
      case nD': False
      have qD: "\<not> prefix loc (dest_loc C J)" using nsp nD' by (auto simp: strict_prefix_def)
      have qT: "\<not> prefix loc (tar_loc C J)"
      proof
        assume p: "prefix loc (tar_loc C J)"
        with nT' have "strict_prefix loc (tar_loc C J)" by (simp add: strict_prefix_def)
        then have "prefix loc C" by (auto simp: tar_loc_def strict_prefix_def prefix_snoc)
        then have "strict_prefix loc (dest_loc C J)"
          by (auto simp: dest_loc_def strict_prefix_def prefix_def)
        with nsp show False by simp
      qed
      have "lookup (root w') loc = lookup ?r7 loc"
        using lookup_opened_other [OF C7(1) nT7 qT] by (simp add: w')
      also have "\<dots> = lookup (opened_root C J r) loc"
        using lookup_made_other [OF h qT qD] .
      finally have "lookup (root w') loc = Some n" using n by (simp add: w)
      then show ?thesis by simp
    qed
  qed
  then obtain n' where n': "lookup (root w') loc = Some n'"
    and eq: "add_node w self f f n' = add_node w self f f n" by blast
  have "add_node w' self f f n' = add_node w self f f n'"
    by (rule add_node_cong) (simp add: w w')
  with eq ms have "ms = add_node w' self f f n'" by simp
  with ne' loc' n' show ?thesis by (simp add: tar_add_def)
qed

lemma isdir_cwd:
  assumes "proper_name J" "os_path_isdir st J"
  shows "opt_is_dir (lookup (root st) (cwd st))" "opt_is_dir (lookup (root st) (cwd st @ [J]))"
proof -
  from assms(1) have J: "J \<noteq> []" "slash \<notin> set J" by (auto simp: proper_name_def)
  from assms(2) obtain loc where loc: "locate st J = Inr loc"
    by (cases "locate st J") (auto simp: os_path_isdir_def stat_def)
  have "\<not> startswith J [slash]" using not_startswith_slash [OF J, of "[]"] by simp
  with loc J have "walk (root st) (cwd st) [J] = Inr loc"
    by (simp add: locate_def split_on_notin)
  then show c: "opt_is_dir (lookup (root st) (cwd st))" by (rule walk_Inr_dir)
  show "opt_is_dir (lookup (root st) (cwd st @ [J]))"
    using assms isdir_proper [OF assms(1) c] by simp
qed

text \<open>
  The first call: with the transient archive created afresh, every entry of the file
  list that exists can be added, so the call goes through; and a call that has gone
  through can be repeated with the same result.
\<close>

lemma isdir_proper2:
  "proper_name J \<Longrightarrow> proper_name n \<Longrightarrow> opt_is_dir (lookup (root w) (cwd w)) \<Longrightarrow>
   opt_is_dir (lookup (root w) (cwd w @ [J])) \<Longrightarrow>
   os_path_isdir w (os_path_join J n) = opt_is_dir (lookup (root w) (cwd w @ [J, n]))"
  by (simp add: os_path_isdir_def stat_proper2 opt_is_dir_def split: option.splits node.splits)

lemma tar_add_first:
  assumes C: "opt_is_dir (lookup r C)" and CJ: "opt_is_dir (lookup r (C @ [J]))"
    and T: "\<not> opt_is_dir (lookup r (tar_loc C J))"
    and D: "\<not> opt_is_dir (lookup r (dest_loc C J))"
    and w: "root w = opened_root C J r" "cwd w = C"
    and st: "root st = r" "cwd st = C"
    and na: "not_above_archive st J f"
    and ex: "os_path_exists st f"
  shows "\<exists>ms. tar_add w self f = Inr ms"
proof -
  note h = C CJ T D
  from ex obtain loc n where loc: "locate st f = Inr loc" and n: "lookup r loc = Some n"
    by (auto simp: os_path_exists_def stat_def st split: sum.splits)
  have s3: "same_dirs (root st) (root w)" using roots_facts(2) [OF h] w st by simp
  have "cwd w = cwd st" by (simp add: w st)
  with s3 have loc': "locate w f = Inr loc" using loc by (rule locate_same_dirs)
  from na loc have nsp: "\<not> strict_prefix loc (dest_loc C J)"
    by (simp add: not_above_archive_def st)
  have "lookup (root w) loc \<noteq> None"
  proof (cases "loc = tar_loc C J")
    case True
    then show ?thesis using roots_facts(7) [OF h] by (simp add: w)
  next
    case False
    have qT: "\<not> prefix loc (tar_loc C J)"
    proof
      assume p: "prefix loc (tar_loc C J)"
      with False have "strict_prefix loc (tar_loc C J)" by (simp add: strict_prefix_def)
      then have "prefix loc C" by (auto simp: tar_loc_def strict_prefix_def prefix_snoc)
      then have "strict_prefix loc (dest_loc C J)"
        by (auto simp: dest_loc_def strict_prefix_def prefix_def)
      with nsp show False by simp
    qed
    show ?thesis using lookup_opened_other [OF C T qT] n by (simp add: w)
  qed
  with loc' show ?thesis by (auto simp: tar_add_def)
qed

lemma tar_add_all_total:
  assumes "\<And>f. f \<in> set fs \<Longrightarrow> \<exists>ms. tar_add w self f = Inr ms"
  shows "\<exists>M. tar_add_all w self fs acc = (M, None)"
  using assms
proof (induction fs arbitrary: acc)
  case Nil
  then show ?case by simp
next
  case (Cons f fs)
  from Cons.prems [of f] obtain ms where ms: "tar_add w self f = Inr ms" by auto
  have "\<exists>M. tar_add_all w self fs (acc @ ms) = (M, None)"
    using Cons.prems by (intro Cons.IH) auto
  with ms show ?case by simp
qed

lemma make_tar_total:
  assumes J: "proper_name J" and dir: "os_path_isdir st J"
    and na: "\<forall>f\<in>set fs. not_above_archive st J f"
    and nT: "\<not> os_path_isdir st (J @ ''.tar.gz'')"
    and nD: "\<not> os_path_isdir st (J @ ''/'' @ J @ ''.tar.gz'')"
    and ex: "\<forall>f\<in>set fs. os_path_exists st f"
  shows "\<exists>st1. make_tar fs J st = (st1, Inr (J @ ''/'' @ J @ ''.tar.gz''))"
proof -
  define C where "C = cwd st"
  define r where "r = root st"
  note P = isdir_cwd [OF J dir, folded C_def r_def]
  note P0 = isdir_cwd [OF J dir]
  have tp: "proper_name (J @ ''.tar.gz'')" using J by (rule proper_tar)
  have name: "os_path_join J (J @ ''.tar.gz'') = J @ ''/'' @ J @ ''.tar.gz''"
    using join_proper [OF J tp] by (simp add: slash_def)
  have T: "\<not> opt_is_dir (lookup r (tar_loc C J))"
    using nT isdir_proper [OF tp P0(1)] by (simp add: tar_loc_def C_def r_def)
  have D: "\<not> opt_is_dir (lookup r (dest_loc C J))"
    using nD isdir_proper2 [OF J tp P0] by (simp add: name dest_loc_def C_def r_def)
  note h = P T D
  have "\<exists>M. tar_add_all (st\<lparr>root := opened_root C J r\<rparr>)
               (os_path_abspath st (J @ ''.tar.gz'')) fs [] = (M, None)"
  proof (rule tar_add_all_total)
    fix f assume f: "f \<in> set fs"
    from na f have nf: "not_above_archive st J f" by blast
    from ex f have ef: "os_path_exists st f" by blast
    have e1: "root (st\<lparr>root := opened_root C J r\<rparr>) = opened_root C J r" by simp
    have e2: "cwd (st\<lparr>root := opened_root C J r\<rparr>) = C" by (simp add: C_def)
    have e5: "root st = r" by (simp add: r_def)
    have e6: "cwd st = C" by (simp add: C_def)
    show "\<exists>ms. tar_add (st\<lparr>root := opened_root C J r\<rparr>)
                     (os_path_abspath st (J @ ''.tar.gz'')) f = Inr ms"
      by (rule tar_add_first [OF h e1 e2 e5 e6 nf ef])
  qed
  then obtain M where res: "tar_add_all (st\<lparr>root := opened_root C J r\<rparr>)
               (os_path_abspath st (J @ ''.tar.gz'')) fs [] = (M, None)" by blast
  have "make_tar fs J st = ((tar_logged J st)\<lparr>root := made_root C J M r\<rparr>,
                             Inr (os_path_join J (J @ ''.tar.gz'')))"
    unfolding make_tar_success_iff [OF J P0]
    using T D res unfolding C_def r_def by blast
  then show ?thesis unfolding name by blast
qed


lemma make_tar_again:
  assumes J: "proper_name J" and dir: "os_path_isdir st J"
    and na: "\<forall>f\<in>set fs. not_above_archive st J f"
    and first: "make_tar fs J st = (st1, Inr p1)"
  shows "p1 = J @ ''/'' @ J @ ''.tar.gz''
     \<and> stat st1 p1 = Some (File (Archive (fresh_members st J fs)))
     \<and> \<not> os_path_exists st1 (J @ ''.tar.gz'')
     \<and> (\<exists>st2. make_tar fs J st1 = (st2, Inr p1)
             \<and> stat st2 p1 = Some (File (Archive (fresh_members st J fs)))
             \<and> \<not> os_path_exists st2 (J @ ''.tar.gz''))"
proof -
  define C where "C = cwd st"
  define r where "r = root st"
  note P = isdir_cwd [OF J dir, folded C_def r_def]
  have tp: "proper_name (J @ ''.tar.gz'')" using J by (rule proper_tar)
  from first obtain M where
        nT: "\<not> opt_is_dir (lookup r (tar_loc C J))"
    and nD: "\<not> opt_is_dir (lookup r (dest_loc C J))"
    and res: "tar_add_all (st\<lparr>root := opened_root C J r\<rparr>)
               (os_path_abspath st (J @ ''.tar.gz'')) fs [] = (M, None)"
    and st1: "st1 = (tar_logged J st)\<lparr>root := made_root C J M r\<rparr>"
    and p1: "p1 = os_path_join J (J @ ''.tar.gz'')"
    unfolding make_tar_success_iff [OF J isdir_cwd [OF J dir]] C_def r_def by blast
  have M: "fresh_members st J fs = M"
    using res by (simp add: fresh_members_def C_def r_def)
  note h = P nT nD
  let ?r7 = "made_root C J M r"
  have f1: "root st1 = ?r7" "cwd st1 = C"
    by (simp_all add: st1 tar_logged_def C_def)
  have s7: "same_dirs r ?r7" by (rule roots_facts(5) [OF h])
  have C7: "opt_is_dir (lookup ?r7 C)" "opt_is_dir (lookup ?r7 (C @ [J]))"
    using same_dirsD [OF s7] P by simp_all
  have T7: "lookup ?r7 (tar_loc C J) = None" by (rule roots_facts(12) [OF h])
  have D7: "lookup ?r7 (dest_loc C J) = Some (File (Archive M))" by (rule roots_facts(13) [OF h])
  have nT7: "\<not> opt_is_dir (lookup ?r7 (tar_loc C J))" using T7 by simp
  have nD7: "\<not> opt_is_dir (lookup ?r7 (dest_loc C J))" using D7 by simp
  note h7 = C7 nT7 nD7
  have P1: "opt_is_dir (lookup (root st1) (cwd st1))" "opt_is_dir (lookup (root st1) (cwd st1 @ [J]))"
    using C7 by (simp_all add: f1)
  have name: "p1 = J @ ''/'' @ J @ ''.tar.gz''"
    using join_proper [OF J tp] by (simp add: p1 slash_def)
  have a1: "stat st1 p1 = Some (File (Archive M))"
    unfolding p1 using stat_proper2 [OF J tp P1] D7 by (simp add: f1 dest_loc_def)
  have b1: "\<not> os_path_exists st1 (J @ ''.tar.gz'')"
    using exists_proper [OF tp P1(1)] T7 by (simp add: f1 tar_loc_def)
  have ab: "os_path_abspath st1 (J @ ''.tar.gz'') = os_path_abspath st (J @ ''.tar.gz'')"
    by (rule abspath_cong) (simp add: f1 C_def)
  have res2: "tar_add_all (st1\<lparr>root := opened_root C J ?r7\<rparr>)
               (os_path_abspath st (J @ ''.tar.gz'')) fs [] = (M, None)"
  proof (rule tar_add_all_stable [OF _ res])
    fix f ms
    assume f: "f \<in> set fs"
      and add: "tar_add (st\<lparr>root := opened_root C J r\<rparr>) (os_path_abspath st (J @ ''.tar.gz'')) f = Inr ms"
    from na f have nf: "not_above_archive st J f" by blast
    have e1: "root (st\<lparr>root := opened_root C J r\<rparr>) = opened_root C J r" by simp
    have e2: "cwd (st\<lparr>root := opened_root C J r\<rparr>) = C" by (simp add: C_def)
    have e3: "root (st1\<lparr>root := opened_root C J ?r7\<rparr>) = opened_root C J ?r7" by simp
    have e4: "cwd (st1\<lparr>root := opened_root C J ?r7\<rparr>) = C" by (simp add: f1)
    have e5: "root st = r" by (simp add: r_def)
    have e6: "cwd st = C" by (simp add: C_def)
    show "tar_add (st1\<lparr>root := opened_root C J ?r7\<rparr>)
                     (os_path_abspath st (J @ ''.tar.gz'')) f = Inr ms"
      by (rule tar_add_second [OF h e1 e2 e3 e4 e5 e6 nf add])
  qed
  define st2 where "st2 = (tar_logged J st1)\<lparr>root := made_root C J M ?r7\<rparr>"
  have second: "make_tar fs J st1 = (st2, Inr p1)"
    unfolding make_tar_success_iff [OF J P1] f1 ab st2_def p1
    using nT7 nD7 res2 by blast
  have f2: "root st2 = made_root C J M ?r7" "cwd st2 = C"
    by (simp_all add: st2_def tar_logged_def f1)
  have s8: "same_dirs ?r7 (made_root C J M ?r7)" by (rule roots_facts(5) [OF h7])
  have C8: "opt_is_dir (lookup (root st2) (cwd st2))" "opt_is_dir (lookup (root st2) (cwd st2 @ [J]))"
    using same_dirsD [OF s8] C7 by (simp_all add: f2)
  have a2: "stat st2 p1 = Some (File (Archive M))"
    unfolding p1 using stat_proper2 [OF J tp C8] roots_facts(13) [OF h7, of M]
    by (simp add: f2 dest_loc_def)
  have b2: "\<not> os_path_exists st2 (J @ ''.tar.gz'')"
    using exists_proper [OF tp C8(1)] roots_facts(12) [OF h7, of M] by (simp add: f2 tar_loc_def)
  from name a1 b1 second a2 b2 show ?thesis unfolding M by blast
qed

subsection \<open>The claims\<close>

text \<open>
  C10. For an \<open>output_uri\<close> that starts with neither \<open>file\<close> nor \<open>s3\<close>,
  \<open>get_output_dir\<close> raises UnboundLocalError, since \<open>output_dir\<close> was never
  assigned; for one that starts with \<open>file\<close> it returns what follows the last
  colon, which is not the path of the URI when that path has a colon of its own.
\<close>

theorem get_output_dir_cases:
  "(\<not> startswith uri ''file'' \<and> \<not> startswith uri ''s3''
      \<longrightarrow> get_output_dir st uri = Inl (UnboundLocalError ''output_dir''))
   \<and> (startswith uri ''file'' \<and> uri = pre @ '':'' @ rest \<and> CHR '':'' \<notin> set rest
      \<longrightarrow> get_output_dir st uri = Inr rest)"
proof (intro conjI impI)
  assume "\<not> startswith uri ''file'' \<and> \<not> startswith uri ''s3''"
  then show "get_output_dir st uri = Inl (UnboundLocalError ''output_dir'')"
    by (simp add: get_output_dir_def)
next
  assume a: "startswith uri ''file'' \<and> uri = pre @ '':'' @ rest \<and> CHR '':'' \<notin> set rest"
  then have "last (split_on CHR '':'' uri) = rest"
    by (simp add: last_split_on_append split_on_notin)
  moreover from a have "startswith uri ''file''" by (rule conjunct1)
  ultimately show "get_output_dir st uri = Inr rest"
    by (simp only: get_output_dir_def if_True)
qed

theorem get_output_dir_cases_witness:
  "(\<not> startswith ''ftp://host/dir'' ''file'' \<and> \<not> startswith ''ftp://host/dir'' ''s3'')
   \<and> get_output_dir plain_world ''ftp://host/dir'' = Inl (UnboundLocalError ''output_dir'')
   \<and> (startswith ''file:/data/a:b'' ''file'' \<and> ''file:/data/a:b'' = ''file:/data/a'' @ '':'' @ ''b''
        \<and> CHR '':'' \<notin> set ''b'')
   \<and> get_output_dir plain_world ''file:/data/a:b'' = Inr ''b''"
  using get_output_dir_cases [of "''ftp://host/dir''" plain_world "''file:/data/a''" "''b''"]
        get_output_dir_cases [of "''file:/data/a:b''" plain_world "''file:/data/a''" "''b''"]
  by (simp add: startswith_def)




text \<open>
  C1, as stated, fails: when the upload raises, \<open>tar_outputs\<close> ends with that
  exception and the working directory is still the output directory.
\<close>

theorem tar_outputs_failure_keeps_output_dir:
  "cwd plain_world = [''home'']
   \<and> snd (tar_outputs sample_output_path failing_upload ''J1'' ''s3://bucket/prefix'' plain_world)
       = Inl ClientError
   \<and> cwd (fst (tar_outputs sample_output_path failing_upload ''J1'' ''s3://bucket/prefix''
                  plain_world)) = [''home'', ''outputs'']"
  by code_simp

text \<open>
  C1, amended. Whenever \<open>tar_outputs\<close> returns normally, the working directory is
  the one at entry (a working directory made of proper names, as \<open>os.getcwd()\<close>
  reports it).
\<close>

theorem tar_outputs_restores_cwd_on_return:
  "wf_cwd st \<Longrightarrow> tar_outputs get_output_path upload ipppssoot output_uri st = (st', Inr res)
     \<Longrightarrow> cwd st' = cwd st"
  unfolding tar_outputs_def Let_def
  by (auto split: sum.splits prod.splits dest: chdir_getcwd)

theorem tar_outputs_restores_cwd_on_return_witness:
  "wf_cwd plain_world
   \<and> snd (tar_outputs sample_output_path accepting_upload ''J1'' ''file:/home/outputs'' plain_world)
       = Inr (Some (''J1/J1.tar.gz'', [''J1/a.fits'', ''J1/previews/c.png'']))
   \<and> cwd (fst (tar_outputs sample_output_path accepting_upload ''J1'' ''file:/home/outputs''
                  plain_world)) = cwd plain_world"
proof -
  have wf: "wf_cwd plain_world" by code_simp
  have r: "snd (tar_outputs sample_output_path accepting_upload ''J1'' ''file:/home/outputs''
             plain_world) = Inr (Some (''J1/J1.tar.gz'', [''J1/a.fits'', ''J1/previews/c.png'']))"
    by code_simp
  then have "tar_outputs sample_output_path accepting_upload ''J1'' ''file:/home/outputs''
               plain_world
             = (fst (tar_outputs sample_output_path accepting_upload ''J1'' ''file:/home/outputs''
                  plain_world), Inr (Some (''J1/J1.tar.gz'', [''J1/a.fits'', ''J1/previews/c.png''])))"
    by (metis prod.collapse)
  from tar_outputs_restores_cwd_on_return [OF wf this] wf r show ?thesis by simp
qed

text \<open>
  C8, as stated, fails. A job identifier is a glob pattern to \<open>find_files\<close>: for
  \<open>J*\<close>, which is not a directory, it returns the files of the directory \<open>J1\<close>.
  And a name that begins with a dot is never matched: \<open>.b.fits\<close> in the job
  directory and \<open>.d.png\<close> in its previews are not returned.
\<close>

theorem find_files_glob_counterexample:
  "\<not> os_path_isdir outputs_world ''J*''
   \<and> find_files outputs_world ''J*'' = [''J1/a.fits'', ''J1/previews/c.png'']
   \<and> iterdir outputs_world ''J1'' False = [''a.fits'', ''.b.fits'', ''previews'']
   \<and> endswith ''.b.fits'' ''.fits''
   \<and> iterdir outputs_world ''J1/previews'' False = [''c.png'', ''.d.png'']
   \<and> find_files outputs_world ''J1'' = [''J1/a.fits'', ''J1/previews/c.png'']"
  by code_simp

text \<open>
  C8, amended. For every job identifier that is a single path component and has none of
  the characters \<open>*\<close>, \<open>?\<close> and \<open>[\<close>, \<open>find_files\<close> returns, in this order, the
  entries of the job directory whose names end in \<open>.fits\<close>, those whose names end in
  \<open>.tra\<close>, and the entries of its \<open>previews\<close> directory, each group in the order
  of the directory listing and without the names that begin with a dot; and it returns
  the empty list when the job directory does not exist.
\<close>

theorem find_files_order_and_missing_dir:
  "proper_name J \<and> \<not> has_magic J \<longrightarrow>
     find_files st J =
        map (os_path_join J)
          (filter (\<lambda>n. \<not> ishidden n \<and> endswith n ''.fits'') (iterdir st J False))
      @ map (os_path_join J)
          (filter (\<lambda>n. \<not> ishidden n \<and> endswith n ''.tra'') (iterdir st J False))
      @ map (os_path_join (J @ ''/previews''))
          (filter (\<lambda>n. \<not> ishidden n) (iterdir st (J @ ''/previews'') False))
     \<and> (\<not> os_path_isdir st J \<longrightarrow> find_files st J = [])"
proof (intro impI conjI)
  assume a: "proper_name J \<and> \<not> has_magic J"
  then show "find_files st J =
        map (os_path_join J)
          (filter (\<lambda>n. \<not> ishidden n \<and> endswith n ''.fits'') (iterdir st J False))
      @ map (os_path_join J)
          (filter (\<lambda>n. \<not> ishidden n \<and> endswith n ''.tra'') (iterdir st J False))
      @ map (os_path_join (J @ ''/previews''))
          (filter (\<lambda>n. \<not> ishidden n) (iterdir st (J @ ''/previews'') False))"
    by (simp add: find_files_groups)
  assume nd: "\<not> os_path_isdir st J"
  from a have J: "J \<noteq> []" by (simp add: proper_name_def)
  have 1: "iterdir st J False = []" using J nd by (rule iterdir_non_dir)
  have "stat st (J @ slash # ''previews'') = None"
    using a nd by (intro stat_under_non_dir) (simp_all add: slash_def)
  then have 2: "iterdir st (J @ ''/previews'') False = []"
    by (simp add: iterdir_def slash_def)
  from a show "find_files st J = []" by (simp add: find_files_groups 1 2)
qed

theorem find_files_order_and_missing_dir_witness:
  "(proper_name ''J1'' \<and> \<not> has_magic ''J1'')
   \<and> find_files outputs_world ''J1'' = [''J1/a.fits'', ''J1/previews/c.png'']
   \<and> (proper_name ''J2'' \<and> \<not> has_magic ''J2'')
   \<and> \<not> os_path_isdir outputs_world ''J2''
   \<and> find_files outputs_world ''J2'' = []"
proof -
  have 1: "proper_name ''J1'' \<and> \<not> has_magic ''J1''" by code_simp
  have 2: "proper_name ''J2'' \<and> \<not> has_magic ''J2''" by code_simp
  have 3: "\<not> os_path_isdir outputs_world ''J2''" by code_simp
  have 4: "map (os_path_join ''J1'')
             (filter (\<lambda>n. \<not> ishidden n \<and> endswith n ''.fits'') (iterdir outputs_world ''J1'' False))
           @ map (os_path_join ''J1'')
               (filter (\<lambda>n. \<not> ishidden n \<and> endswith n ''.tra'') (iterdir outputs_world ''J1'' False))
           @ map (os_path_join (''J1'' @ ''/previews''))
               (filter (\<lambda>n. \<not> ishidden n) (iterdir outputs_world (''J1'' @ ''/previews'') False))
           = [''J1/a.fits'', ''J1/previews/c.png'']"
    by code_simp
  from find_files_order_and_missing_dir [of "''J1''" outputs_world] 1
  have "find_files outputs_world ''J1'' =
          map (os_path_join ''J1'')
             (filter (\<lambda>n. \<not> ishidden n \<and> endswith n ''.fits'') (iterdir outputs_world ''J1'' False))
           @ map (os_path_join ''J1'')
               (filter (\<lambda>n. \<not> ishidden n \<and> endswith n ''.tra'') (iterdir outputs_world ''J1'' False))
           @ map (os_path_join (''J1'' @ ''/previews''))
               (filter (\<lambda>n. \<not> ishidden n) (iterdir outputs_world (''J1'' @ ''/previews'') False))"
    by blast
  then have 5: "find_files outputs_world ''J1'' = [''J1/a.fits'', ''J1/previews/c.png'']"
    using 4 by (rule trans)
  from find_files_order_and_missing_dir [of "''J2''" outputs_world] 2 3
  have 6: "find_files outputs_world ''J2'' = []" by blast
  from 1 2 3 5 6 show ?thesis by blast
qed

text \<open>
  C4, as stated, fails. When the job directory does not exist, \<open>make_tar\<close> with
  the empty file list succeeds and returns \<open>J2/J2.tar.gz\<close>, but no such file
  exists: the archive has been copied to a regular file called \<open>J2\<close>. And when the
  file list holds the job directory itself, the second archive has the first one as an
  additional member.
\<close>

theorem make_tar_counterexample:
  "snd (make_tar [] ''J2'' outputs_world) = Inr ''J2/J2.tar.gz''
   \<and> stat (fst (make_tar [] ''J2'' outputs_world)) ''J2/J2.tar.gz'' = None
   \<and> stat (fst (make_tar [] ''J2'' outputs_world)) ''J2'' = Some (File (Archive []))
   \<and> snd (make_tar [''J1''] ''J1'' outputs_world) = Inr ''J1/J1.tar.gz''
   \<and> stat (fst (make_tar [''J1''] ''J1'' outputs_world)) ''J1/J1.tar.gz''
       = Some (File (Archive [''J1'', ''J1/.b.fits'', ''J1/a.fits'', ''J1/previews'',
                              ''J1/previews/.d.png'', ''J1/previews/c.png'']))
   \<and> snd (make_tar [''J1''] ''J1'' (fst (make_tar [''J1''] ''J1'' outputs_world)))
       = Inr ''J1/J1.tar.gz''
   \<and> stat (fst (make_tar [''J1''] ''J1'' (fst (make_tar [''J1''] ''J1'' outputs_world))))
         ''J1/J1.tar.gz''
       = Some (File (Archive [''J1'', ''J1/.b.fits'', ''J1/J1.tar.gz'', ''J1/a.fits'',
                              ''J1/previews'', ''J1/previews/.d.png'', ''J1/previews/c.png'']))"
  by code_simp

text \<open>
  C4, amended. Let the job identifier be a single path component that names an
  existing directory of the working directory, and let no entry of the file list be
  above the archive. First, a \<open>{jobId}.tar.gz\<close> left in the working directory does
  not stop \<open>make_tar\<close>: when neither \<open>{jobId}.tar.gz\<close> nor
  \<open>{jobId}/{jobId}.tar.gz\<close> is a directory and every entry of the file list exists,
  the call succeeds. Second, whenever \<open>make_tar\<close> succeeds, it returns
  \<open>{jobId}/{jobId}.tar.gz\<close>, the archive at that path has exactly the members added
  to a newly created archive, so none of an earlier \<open>{jobId}.tar.gz\<close>, which has
  been deleted first, and the transient \<open>{jobId}.tar.gz\<close> is gone; a second call
  with the same arguments then succeeds as well, returns the same path, leaves an
  archive with the same members at it, and again no transient archive.
\<close>

theorem make_tar_twice:
  assumes J: "proper_name J" and dir: "os_path_isdir st J"
    and na: "\<forall>f\<in>set fs. not_above_archive st J f"
  shows "(\<not> os_path_isdir st (J @ ''.tar.gz'')
          \<and> \<not> os_path_isdir st (J @ ''/'' @ J @ ''.tar.gz'')
          \<and> (\<forall>f\<in>set fs. os_path_exists st f)
          \<longrightarrow> (\<exists>st1. make_tar fs J st = (st1, Inr (J @ ''/'' @ J @ ''.tar.gz''))))
     \<and> (\<forall>st1 p1. make_tar fs J st = (st1, Inr p1) \<longrightarrow>
           p1 = J @ ''/'' @ J @ ''.tar.gz''
           \<and> stat st1 p1 = Some (File (Archive (fresh_members st J fs)))
           \<and> \<not> os_path_exists st1 (J @ ''.tar.gz'')
           \<and> (\<exists>st2. make_tar fs J st1 = (st2, Inr p1)
                   \<and> stat st2 p1 = Some (File (Archive (fresh_members st J fs)))
                   \<and> \<not> os_path_exists st2 (J @ ''.tar.gz'')))"
proof (intro conjI impI allI)
  assume "\<not> os_path_isdir st (J @ ''.tar.gz'')
          \<and> \<not> os_path_isdir st (J @ ''/'' @ J @ ''.tar.gz'')
          \<and> (\<forall>f\<in>set fs. os_path_exists st f)"
  then show "\<exists>st1. make_tar fs J st = (st1, Inr (J @ ''/'' @ J @ ''.tar.gz''))"
    using make_tar_total [OF J dir na] by blast
next
  fix st1 p1
  assume first: "make_tar fs J st = (st1, Inr p1)"
  note r = make_tar_again [OF J dir na first]
  from r show "p1 = J @ ''/'' @ J @ ''.tar.gz''" by blast
  from r show "stat st1 p1 = Some (File (Archive (fresh_members st J fs)))" by blast
  from r show "\<not> os_path_exists st1 (J @ ''.tar.gz'')" by blast
  from r show "\<exists>st2. make_tar fs J st1 = (st2, Inr p1)
                   \<and> stat st2 p1 = Some (File (Archive (fresh_members st J fs)))
                   \<and> \<not> os_path_exists st2 (J @ ''.tar.gz'')" by blast
qed

theorem make_tar_twice_witness:
  "proper_name ''J1'' \<and> os_path_isdir stale_world ''J1''
   \<and> not_above_archive stale_world ''J1'' ''J1/a.fits''
   \<and> not_above_archive stale_world ''J1'' ''J1/previews''
   \<and> stat stale_world ''J1.tar.gz'' = Some (File (Archive [''old/member'']))
   \<and> \<not> os_path_isdir stale_world ''J1/J1.tar.gz''
   \<and> os_path_exists stale_world ''J1/a.fits''
   \<and> os_path_exists stale_world ''J1/previews''
   \<and> (\<exists>st1 st2.
         make_tar [''J1/a.fits'', ''J1/previews''] ''J1'' stale_world = (st1, Inr ''J1/J1.tar.gz'')
         \<and> stat st1 ''J1/J1.tar.gz''
             = Some (File (Archive [''J1/a.fits'', ''J1/previews'', ''J1/previews/.d.png'',
                                    ''J1/previews/c.png'']))
         \<and> \<not> os_path_exists st1 ''J1.tar.gz''
         \<and> make_tar [''J1/a.fits'', ''J1/previews''] ''J1'' st1 = (st2, Inr ''J1/J1.tar.gz'')
         \<and> stat st2 ''J1/J1.tar.gz''
             = Some (File (Archive [''J1/a.fits'', ''J1/previews'', ''J1/previews/.d.png'',
                                    ''J1/previews/c.png'']))
         \<and> \<not> os_path_exists st2 ''J1.tar.gz'')"
proof -
  let ?fs = "[''J1/a.fits'', ''J1/previews'']"
  let ?M = "[''J1/a.fits'', ''J1/previews'', ''J1/previews/.d.png'', ''J1/previews/c.png'']"
  have 1: "proper_name ''J1''" by code_simp
  have 2: "os_path_isdir stale_world ''J1''" by code_simp
  have h3a: "not_above_archive stale_world ''J1'' ''J1/a.fits''" by code_simp
  have h3b: "not_above_archive stale_world ''J1'' ''J1/previews''" by code_simp
  from h3a h3b have 3: "\<forall>f\<in>set ?fs. not_above_archive stale_world ''J1'' f" by simp
  have 4: "stat stale_world ''J1.tar.gz'' = Some (File (Archive [''old/member'']))" by code_simp
  have 5: "\<not> os_path_isdir stale_world ''J1.tar.gz''" by code_simp
  have 6: "\<not> os_path_isdir stale_world ''J1/J1.tar.gz''" by code_simp
  have h7a: "os_path_exists stale_world ''J1/a.fits''" by code_simp
  have h7b: "os_path_exists stale_world ''J1/previews''" by code_simp
  from h7a h7b have 7: "\<forall>f\<in>set ?fs. os_path_exists stale_world f" by simp
  have 8: "fresh_members stale_world ''J1'' ?fs = ?M" by code_simp
  note t = make_tar_twice [OF 1 2 3, simplified]
  from t 5 6 7 obtain st1 where
    a: "make_tar ?fs ''J1'' stale_world = (st1, Inr ''J1/J1.tar.gz'')" by auto
  from t a have b: "stat st1 ''J1/J1.tar.gz'' = Some (File (Archive (fresh_members stale_world ''J1'' ?fs)))
     \<and> \<not> os_path_exists st1 ''J1.tar.gz''
     \<and> (\<exists>st2. make_tar ?fs ''J1'' st1 = (st2, Inr ''J1/J1.tar.gz'')
             \<and> stat st2 ''J1/J1.tar.gz'' = Some (File (Archive (fresh_members stale_world ''J1'' ?fs)))
             \<and> \<not> os_path_exists st2 ''J1.tar.gz'')" by blast
  from a b [unfolded 8] have "\<exists>st1 st2.
         make_tar ?fs ''J1'' stale_world = (st1, Inr ''J1/J1.tar.gz'')
         \<and> stat st1 ''J1/J1.tar.gz'' = Some (File (Archive ?M))
         \<and> \<not> os_path_exists st1 ''J1.tar.gz''
         \<and> make_tar ?fs ''J1'' st1 = (st2, Inr ''J1/J1.tar.gz'')
         \<and> stat st2 ''J1/J1.tar.gz'' = Some (File (Archive ?M))
         \<and> \<not> os_path_exists st2 ''J1.tar.gz''" by blast
  with 1 2 h3a h3b 4 6 h7a h7b show ?thesis by blast
qed

end
